theory Spec2Isabelle
  imports Main
begin

section \<open>Strings\<close>

text \<open>
  Message text is a JavaScript string: a sequence of UTF-16 code units. The regular
  expressions of \<open>sanitizeForTts\<close> carry no \<open>u\<close> flag, so they read code units, and
  \<open>length\<close>, \<open>slice\<close> and \<open>trim\<close> count code units too. A code unit is modelled by its
  number. Identifiers and configuration values (session ids, message ids, voice ids,
  commands) are plain \<open>string\<close>s.
\<close>

type_synonym jsstring = "nat list"

definition js :: "string \<Rightarrow> jsstring" where
  "js s = map of_char s"

text \<open>
  The class \<open>\s\<close> of a JavaScript regular expression, which is also the set that
  \<open>trim\<close> and \<open>trimEnd\<close> strip: tab, line feed, vertical tab, form feed, carriage
  return, space, no-break space, U+1680, U+2000 to U+200A, U+2028, U+2029, U+202F,
  U+205F, U+3000 and U+FEFF.
\<close>

definition is_space :: "nat \<Rightarrow> bool" where
  "is_space c = (c = 9 \<or> c = 10 \<or> c = 11 \<or> c = 12 \<or> c = 13 \<or> c = 32 \<or> c = 160
     \<or> c = 5760 \<or> (8192 \<le> c \<and> c \<le> 8202) \<or> c = 8232 \<or> c = 8233 \<or> c = 8239
     \<or> c = 8287 \<or> c = 12288 \<or> c = 65279)"

definition trimEnd :: "jsstring \<Rightarrow> jsstring" where
  "trimEnd t = rev (dropWhile is_space (rev t))"

definition trim :: "jsstring \<Rightarrow> jsstring" where
  "trim t = trimEnd (dropWhile is_space t)"

section \<open>Text extraction and sanitisation\<close>

text \<open>A content fragment: a text part with its payload and \<open>ignored\<close> flag, or any other kind.\<close>

datatype Part = TextPart jsstring bool | OtherPart string

text \<open>
  \<open>joinTextParts\<close>: the text parts that are not ignored and not empty, concatenated in
  order with no separator, then trimmed.
\<close>

fun text_chunks :: "Part list \<Rightarrow> jsstring list" where
  "text_chunks [] = []"
| "text_chunks (OtherPart k # ps) = text_chunks ps"
| "text_chunks (TextPart t ignored # ps) =
     (if ignored then text_chunks ps
      else if t = [] then text_chunks ps
      else t # text_chunks ps)"

definition joinTextParts :: "Part list \<Rightarrow> jsstring" where
  "joinTextParts ps = trim (concat (text_chunks ps))"

subsection \<open>Fenced code blocks\<close>

text \<open>
  The first replacement of \<open>sanitizeForTts\<close> is by the expression
  \<^verbatim>\<open>/\x60\x60\x60[\s\S]*?\x60\x60\x60/g\<close> (three backquotes, code unit 96, a lazy run
  of any code units, three backquotes), each match replaced by one space. The lazy
  run stops at the first closing fence: \<open>find_fence_close\<close> returns what follows the
  first three backquotes of its argument, or \<open>None\<close> when there are none. A global
  replacement scans left to right; after a match it goes on behind the match, and
  where no match starts it keeps the code unit and moves one position on.
\<close>

definition fence :: jsstring where
  "fence = [96, 96, 96]"

fun find_fence_close :: "jsstring \<Rightarrow> jsstring option" where
  "find_fence_close (a # b # c # rest) =
     (if a = 96 \<and> b = 96 \<and> c = 96 then Some rest else find_fence_close (b # c # rest))"
| "find_fence_close xs = None"

function strip_fences :: "jsstring \<Rightarrow> jsstring" where
  "strip_fences [] = []"
| "strip_fences (x # xs) =
     (if take 3 (x # xs) = fence then
        (case find_fence_close (drop 3 (x # xs)) of
           Some rest \<Rightarrow> 32 # strip_fences rest
         | None \<Rightarrow> x # strip_fences xs)
      else x # strip_fences xs)"
  by pat_completeness auto
termination
proof (relation "measure length")
  have shorter: "find_fence_close ys = Some r \<Longrightarrow> length r < length ys" for ys r
    by (induction ys rule: find_fence_close.induct) (auto split: if_splits)
  fix x :: nat and xs rest :: "nat list"
  assume "find_fence_close (drop 3 (x # xs)) = Some rest"
  then have "length rest < length (drop 3 (x # xs))"
    by (rule shorter)
  then show "(rest, x # xs) \<in> measure length" by simp
qed simp_all

subsection \<open>Inline code spans\<close>

text \<open>
  The second replacement is by \<^verbatim>\<open>/\x60[^\x60]*\x60/g\<close>: a backquote, a run of code
  units other than a backquote, a backquote; each match replaced by one space.
\<close>

function strip_inline :: "jsstring \<Rightarrow> jsstring" where
  "strip_inline [] = []"
| "strip_inline (x # xs) =
     (if x = 96 then
        (case dropWhile (\<lambda>c. c \<noteq> 96) xs of
           [] \<Rightarrow> x # strip_inline xs
         | q # rest \<Rightarrow> 32 # strip_inline rest)
      else x # strip_inline xs)"
  by pat_completeness auto
termination
proof (relation "measure length")
  fix x q :: nat and xs rest :: "nat list"
  assume "dropWhile (\<lambda>c. c \<noteq> 96) xs = q # rest"
  then have "length (q # rest) \<le> length xs"
    by (metis length_dropWhile_le)
  then show "(rest, x # xs) \<in> measure length" by simp
qed simp_all

subsection \<open>Markdown links\<close>

text \<open>
  The third replacement is by \<^verbatim>\<open>/\[([^\]]+)\]\([^)]+\)/g\<close> with \<^verbatim>\<open>$1\<close>: an
  opening bracket (91), a non-empty label without closing bracket (93), the two code
  units \<^verbatim>\<open>](\<close> (93, 40), a non-empty address without closing parenthesis (41), and a
  closing parenthesis. Both runs are greedy, and a shorter run can never match, since
  the code unit after it would be inside the run: the match at a position is unique.
  \<open>match_link\<close> returns the label and what follows the match.
\<close>

definition match_link :: "jsstring \<Rightarrow> (jsstring \<times> jsstring) option" where
  "match_link t =
     (case t of
        [] \<Rightarrow> None
      | x # r \<Rightarrow>
          if x \<noteq> 91 then None
          else let label = takeWhile (\<lambda>c. c \<noteq> 93) r in
            if label = [] then None
            else (case dropWhile (\<lambda>c. c \<noteq> 93) r of
                    a # b # r2 \<Rightarrow>
                      if b \<noteq> 40 then None
                      else let url = takeWhile (\<lambda>c. c \<noteq> 41) r2 in
                        if url = [] then None
                        else (case dropWhile (\<lambda>c. c \<noteq> 41) r2 of
                                [] \<Rightarrow> None
                              | p # rest \<Rightarrow> Some (label, rest))
                  | _ \<Rightarrow> None))"

function rewrite_links :: "jsstring \<Rightarrow> jsstring" where
  "rewrite_links [] = []"
| "rewrite_links (x # xs) =
     (case match_link (x # xs) of
        Some (label, rest) \<Rightarrow> label @ rewrite_links rest
      | None \<Rightarrow> x # rewrite_links xs)"
  by pat_completeness auto
termination
proof (relation "measure length")
  fix x :: nat and xs label rest :: "nat list" and p :: "nat list \<times> nat list"
  assume "match_link (x # xs) = Some p" and "(label, rest) = p"
  then have m: "match_link (x # xs) = Some (label, rest)" by simp
  then obtain a b r2 where d1: "dropWhile (\<lambda>c. c \<noteq> 93) xs = a # b # r2"
    by (auto simp: match_link_def Let_def split: if_splits list.splits)
  from m d1 obtain q where d2: "dropWhile (\<lambda>c. c \<noteq> 41) r2 = q # rest"
    by (auto simp: match_link_def Let_def split: if_splits list.splits)
  have "length (q # rest) \<le> length r2"
    using d2 by (metis length_dropWhile_le)
  moreover have "length (a # b # r2) \<le> length xs"
    using d1 by (metis length_dropWhile_le)
  ultimately show "(rest, x # xs) \<in> measure length" by simp
qed simp_all

subsection \<open>Whitespace\<close>

text \<open>The last replacement is by \<^verbatim>\<open>/\s+/g\<close>: every maximal whitespace run becomes one space.\<close>

function collapse_ws :: "jsstring \<Rightarrow> jsstring" where
  "collapse_ws [] = []"
| "collapse_ws (x # xs) =
     (if is_space x then 32 # collapse_ws (dropWhile is_space xs)
      else x # collapse_ws xs)"
  by pat_completeness auto
termination
proof (relation "measure length")
  fix x :: nat and xs :: "nat list"
  have "length (dropWhile is_space xs) \<le> length xs"
    by (rule length_dropWhile_le)
  then show "(dropWhile is_space xs, x # xs) \<in> measure length" by simp
qed simp_all

definition sanitizeForTts :: "jsstring \<Rightarrow> jsstring" where
  "sanitizeForTts t =
     (let withoutCodeBlocks = strip_fences t;
          withoutInlineCode = strip_inline withoutCodeBlocks;
          withoutLinks = rewrite_links withoutInlineCode
      in trim (collapse_ws withoutLinks))"

text \<open>
  \<open>truncateForTts\<close>: unchanged when the length is at most \<open>maxChars\<close>, otherwise the
  first \<open>maxChars\<close> code units with trailing whitespace removed. (\<open>slice(0, n)\<close> with a
  negative \<open>n\<close> would count from the end; the only caller passes at least 200.)
\<close>

definition truncateForTts :: "jsstring \<Rightarrow> int \<Rightarrow> jsstring \<times> bool" where
  "truncateForTts t maxChars =
     (if int (length t) \<le> maxChars then (t, False)
      else (trimEnd (if 0 \<le> maxChars then take (nat maxChars) t
                     else take (nat (int (length t) + maxChars)) t), True))"

section \<open>Configuration\<close>

datatype VoiceMode = Continuous | PushToTalk

datatype ConfigSource = Project | Global | NoSource

definition mode_str :: "VoiceMode \<Rightarrow> string" where
  "mode_str m = (case m of Continuous \<Rightarrow> ''continuous'' | PushToTalk \<Rightarrow> ''push-to-talk'')"

definition source_str :: "ConfigSource \<Rightarrow> string" where
  "source_str c = (case c of Project \<Rightarrow> ''project'' | Global \<Rightarrow> ''global'' | NoSource \<Rightarrow> ''none'')"

text \<open>
  \<open>VoiceConfig\<close> is the content of \<open>voice.json\<close> as its type declares it: every field
  optional. \<open>maxChars\<close> is a JavaScript number; the model takes the integers.

  \<open>loadVoiceConfig\<close> casts what \<open>JSON.parse\<close> returns to this type without a check, and
  \<open>reloadConfig\<close> reads the field \<open>outputFormat\<close> of the result once more after it has
  assigned the state. So the model keeps, beside the strings, the values of that
  field that pass \<open>defaultConfig\<close> without being strings: \<open>false\<close> and \<open>0\<close>, which read
  as false (\<open>FormatFalsy\<close>), and beside the objects the content \<open>null\<close>, of which
  \<open>defaultConfig\<close> reads every field as undefined (\<open>Null\<close>). Used as a string, or
  read as an object, such a value makes the engine throw a \<open>TypeError\<close>; the value is
  kept with the message of that error. A field that is \<open>null\<close> reads like a field that
  is missing, and a content that is neither \<open>null\<close> nor an object has none of the
  fields and reads like the empty object. Every other value of \<open>outputFormat\<close> that is
  not a string reads as true and makes \<open>defaultConfig\<close> throw, before the state is
  assigned; these values, and values of the other fields that are not of the declared
  type, are not modelled.
\<close>

datatype OutputFormatValue = FormatText string | FormatFalsy string

record PlayerPartial =
  pp_cmd :: "string option"
  pp_args :: "string list option"

record VoiceConfig =
  vc_enabled :: "bool option"
  vc_mode :: "VoiceMode option"
  vc_language :: "string option"
  vc_voiceId :: "string option"
  vc_modelId :: "string option"
  vc_outputFormat :: "OutputFormatValue option"
  vc_player :: "PlayerPartial option"
  vc_maxChars :: "int option"

definition empty_config :: VoiceConfig where
  "empty_config = \<lparr>vc_enabled = None, vc_mode = None, vc_language = None, vc_voiceId = None,
     vc_modelId = None, vc_outputFormat = None, vc_player = None, vc_maxChars = None\<rparr>"

datatype parsed = Null string | Object VoiceConfig

record LoadedConfig =
  lc_config :: parsed
  lc_source :: ConfigSource

record AudioFormat =
  accept :: string
  ext :: string
  fmt_outputFormat :: string

text \<open>The result type of \<open>defaultConfig\<close>: the snapshot held in \<open>state.config\<close>.\<close>

record Player =
  cmd :: string
  args :: "string list"

record Config =
  enabled :: bool
  mode :: VoiceMode
  language :: "string option"
  voiceId :: "string option"
  modelId :: "string option"
  outputFormat :: string
  player :: Player
  maxChars :: int

definition normalizeSlash :: "string \<Rightarrow> string" where
  "normalizeSlash p = map (\<lambda>c. if c = CHR 0x5C then CHR ''/'' else c) p"

text \<open>
  \<open>toLowerCase\<close> on the letters A to Z. No other character lowers to one of
  \<open>m\<close>, \<open>p\<close>, \<open>3\<close>, so the prefix test of \<open>isMp3OutputFormat\<close> reads the same.
\<close>

definition lower_char :: "char \<Rightarrow> char" where
  "lower_char c = (let n = (of_char c :: nat) in if 65 \<le> n \<and> n \<le> 90 then char_of (n + 32) else c)"

definition isMp3OutputFormat :: "string \<Rightarrow> bool" where
  "isMp3OutputFormat v = (take 3 (map lower_char (normalizeSlash v)) = ''mp3'')"

text \<open>A string or \<open>undefined\<close> read as a condition: the empty string is false as well.\<close>

definition truthy :: "string option \<Rightarrow> string option" where
  "truthy v = (case v of None \<Rightarrow> None | Some s \<Rightarrow> if s = [] then None else Some s)"

definition audioFormatFor :: "string option \<Rightarrow> AudioFormat" where
  "audioFormatFor fmt =
     (let fallback = ''mp3_44100_128'';
          resolved = (case truthy fmt of
                        Some f \<Rightarrow> if isMp3OutputFormat f then f else fallback
                      | None \<Rightarrow> fallback)
      in \<lparr>accept = ''audio/mpeg'', ext = ''mp3'', fmt_outputFormat = resolved\<rparr>)"

text \<open>
  \<open>defaultConfig\<close> reads each field by \<^verbatim>\<open>partial?.field\<close>: of \<open>null\<close>, as of a missing
  argument, every field is undefined. It passes the field \<open>outputFormat\<close> to
  \<open>audioFormatFor\<close>, which reads its argument as a condition before it uses it as a
  string: \<open>false\<close> and \<open>0\<close> read as false, like undefined and the empty string, and
  give the fallback.
\<close>

definition fields_of :: "parsed \<Rightarrow> VoiceConfig" where
  "fields_of partial = (case partial of Null e \<Rightarrow> empty_config | Object c \<Rightarrow> c)"

definition as_condition :: "OutputFormatValue option \<Rightarrow> string option" where
  "as_condition v =
     (case v of
        Some (FormatText f) \<Rightarrow> Some f
      | Some (FormatFalsy e) \<Rightarrow> None
      | None \<Rightarrow> None)"

definition defaultConfig :: "parsed \<Rightarrow> Config" where
  "defaultConfig partial =
     (let p = fields_of partial;
          output = audioFormatFor (as_condition (vc_outputFormat p)) in
      \<lparr>enabled = (case vc_enabled p of Some b \<Rightarrow> b | None \<Rightarrow> True),
       mode = (case vc_mode p of Some m \<Rightarrow> m | None \<Rightarrow> Continuous),
       language = vc_language p,
       voiceId = vc_voiceId p,
       modelId = vc_modelId p,
       outputFormat = fmt_outputFormat output,
       player =
         \<lparr>cmd = (case vc_player p of
                   Some pl \<Rightarrow> (case pp_cmd pl of Some c \<Rightarrow> c | None \<Rightarrow> ''mpv'')
                 | None \<Rightarrow> ''mpv''),
          args = (case vc_player p of
                    Some pl \<Rightarrow> (case pp_args pl of
                                 Some a \<Rightarrow> a
                               | None \<Rightarrow> [''--no-terminal'', ''--force-window=no'', ''--keep-open=no''])
                  | None \<Rightarrow> [''--no-terminal'', ''--force-window=no'', ''--keep-open=no''])\<rparr>,
       maxChars = (case vc_maxChars p of Some n \<Rightarrow> n | None \<Rightarrow> 3000)\<rparr>)"

subsection \<open>Numbers and lists as strings\<close>

text \<open>\<open>String(n)\<close> for an integer: its decimal digits, with a minus sign when negative.\<close>

definition digit :: "nat \<Rightarrow> char" where
  "digit d = ''0123456789'' ! d"

fun string_of_nat :: "nat \<Rightarrow> string" where
  "string_of_nat n =
     (if n < 10 then [digit n] else string_of_nat (n div 10) @ [digit (n mod 10)])"

declare string_of_nat.simps [simp del]

definition String_of_int :: "int \<Rightarrow> string" where
  "String_of_int i = (if i < 0 then CHR ''-'' # string_of_nat (nat (- i)) else string_of_nat (nat i))"

text \<open>\<open>Array.prototype.join\<close>: the elements with the separator between them.\<close>

fun join :: "string \<Rightarrow> string list \<Rightarrow> string" where
  "join sep [] = []"
| "join sep [x] = x"
| "join sep (x # y # ys) = x @ sep @ join sep (y # ys)"

definition or_empty :: "string option \<Rightarrow> string" where
  "or_empty v = (case v of None \<Rightarrow> [] | Some s \<Rightarrow> s)"

definition fingerprint :: "Config \<Rightarrow> ConfigSource \<Rightarrow> string" where
  "fingerprint cfg source =
     (let playerArgs = join ''|'' (args (player cfg)) in
      join '';''
        [source_str source,
         if enabled cfg then ''1'' else ''0'',
         mode_str (mode cfg),
         or_empty (language cfg),
         or_empty (voiceId cfg),
         or_empty (modelId cfg),
         outputFormat cfg,
         cmd (player cfg),
         playerArgs,
         String_of_int (maxChars cfg)])"

subsection \<open>Reading the configuration file\<close>

text \<open>
  What \<open>loadVoiceConfig\<close> finds when it awaits the file system: the value of \<open>HOME\<close>,
  and for the project file and the global file whether it exists (\<open>None\<close>: it does
  not) and what reading and parsing it gives. \<open>Bun.file(..).text()\<close> and \<open>JSON.parse\<close>
  are the runtime's: a file is unreadable (\<open>text()\<close> rejects), malformed
  (\<open>JSON.parse\<close> throws), each with the error's message, or parses to a value that
  is returned under the cast to \<open>VoiceConfig\<close>.
\<close>

datatype file_read = Unreadable string | Malformed string | Parsed parsed

record files =
  fs_home :: "string option"
  fs_project :: "file_read option"
  fs_global :: "file_read option"

definition read_config :: "file_read \<Rightarrow> ConfigSource \<Rightarrow> string + LoadedConfig" where
  "read_config f src =
     (case f of
        Unreadable e \<Rightarrow> Inl e
      | Malformed e \<Rightarrow> Inl e
      | Parsed c \<Rightarrow> Inr \<lparr>lc_config = c, lc_source = src\<rparr>)"

definition loadVoiceConfig :: "files \<Rightarrow> string + LoadedConfig" where
  "loadVoiceConfig f =
     (case fs_project f of
        Some projectFile \<Rightarrow> read_config projectFile Project
      | None \<Rightarrow>
          (case truthy (fs_home f) of
             Some home \<Rightarrow>
               (case fs_global f of
                  Some globalFile \<Rightarrow> read_config globalFile Global
                | None \<Rightarrow> Inr \<lparr>lc_config = Object empty_config, lc_source = NoSource\<rparr>)
           | None \<Rightarrow> Inr \<lparr>lc_config = Object empty_config, lc_source = NoSource\<rparr>))"

section \<open>The plugin state\<close>

datatype reason = Idle | Manual

record state =
  config :: Config
  configSource :: ConfigSource
  configFingerprint :: string
  lastSessionID :: "string option"
  disabledSessions :: "string set"
  lastSpokenAssistantMessage :: "string \<rightharpoonup> string"
  speaking :: bool
  pendingSpeak :: "(string \<times> reason) option"

text \<open>
  The state starts on \<open>defaultConfig()\<close>: without an argument every field reads
  undefined, as of the empty object.
\<close>

definition initial_state :: state where
  "initial_state =
     \<lparr>config = defaultConfig (Object empty_config),
      configSource = NoSource,
      configFingerprint = [],
      lastSessionID = None,
      disabledSessions = {},
      lastSpokenAssistantMessage = Map.empty,
      speaking = False,
      pendingSpeak = None\<rparr>"

definition isEnabledForSession :: "state \<Rightarrow> string \<Rightarrow> bool" where
  "isEnabledForSession s sessionID =
     (if \<not> enabled (config s) then False
      else if sessionID \<in> disabledSessions s then False
      else True)"

section \<open>Messages\<close>

record MessageInfo =
  msg_id :: string
  role :: string

record MessageWithParts =
  info :: MessageInfo
  parts :: "Part list"

record Latest =
  messageID :: string
  spoken :: jsstring
  truncated :: bool

text \<open>
  The loop of \<open>getLatestAssistant\<close> runs from the last message to the first; \<open>scan_latest\<close>
  is that loop over the reversed list, with the \<open>maxChars\<close> of the snapshot.
\<close>

fun scan_latest :: "int \<Rightarrow> MessageWithParts list \<Rightarrow> Latest option" where
  "scan_latest configured [] = None"
| "scan_latest configured (msg # older) =
     (if role (info msg) \<noteq> ''assistant'' then scan_latest configured older
      else let fullText = joinTextParts (parts msg);
               sanitized = sanitizeForTts fullText
           in if sanitized = [] then scan_latest configured older
              else let limit = max 200 configured;
                       cut = truncateForTts sanitized limit
                   in Some \<lparr>messageID = msg_id (info msg), spoken = fst cut, truncated = snd cut\<rparr>)"

definition getLatestAssistant :: "state \<Rightarrow> MessageWithParts list option \<Rightarrow> Latest option" where
  "getLatestAssistant s data =
     scan_latest (maxChars (config s)) (rev (case data of None \<Rightarrow> [] | Some ms \<Rightarrow> ms))"

section \<open>Suspended calls and what the plugin does to the world\<close>

text \<open>
  An \<open>async\<close> function runs without interruption up to its next \<open>await\<close>; there it is
  suspended, and other events are handled until the awaited promise settles. The model
  keeps every suspended call as a \<open>task\<close>: the point it waits at, with the local
  variables its continuation reads. A caller that only awaits a call and then returns
  (the event handler awaiting \<open>handleCommand\<close> or \<open>speakSession\<close>, and \<open>speakSession\<close>
  awaiting its own re-invocation in \<open>finally\<close>) has nothing left to do and is not kept.
  What the plugin asks of its collaborators is recorded as a list of \<open>effect\<close>s.
\<close>

datatype ToastVariant = Info | Success | Warning | Error

record TtsParams =
  p_apiKey :: string
  p_voiceId :: string
  p_text :: jsstring
  p_modelId :: string
  p_outputFormat :: string
  p_accept :: string

datatype effect =
    Toast string ToastVariant
  | LoadFiles
  | FetchMessages string
  | TtsCall TtsParams
  | WriteFile "nat list" string
  | PlayerCall string "string list"
  | DeleteFile

text \<open>The locals of one \<open>speakSession\<close> call past its checks.\<close>

record SpeakCtx =
  sessionID :: string
  why :: reason
  apiKey :: string
  ctx_voiceId :: string
  format :: AudioFormat
  ctx_modelId :: string

datatype task =
    AwaitToastDone
  | AwaitLoadConfig bool
  | AwaitLoadedToast parsed
  | AwaitMessages SpeakCtx
  | AwaitTruncToast SpeakCtx Latest
  | AwaitTts SpeakCtx Latest
  | AwaitWrite SpeakCtx Latest
  | AwaitPlayer SpeakCtx Latest
  | AwaitDelete SpeakCtx Latest int string
  | AwaitErrorToast

text \<open>
  How an awaited promise settles. \<open>PlayerExit code err\<close> is the player's exit code with
  its error stream as text, trimmed; the \<open>Failed\<close> and \<open>Threw\<close> responses carry the
  message of the error thrown.
\<close>

datatype response =
    ToastDone
  | Loaded files
  | Messages "MessageWithParts list option"
  | MessagesFailed string
  | TtsOk "nat list"
  | TtsFailed string
  | WriteOk
  | WriteFailed string
  | PlayerExit int string
  | PlayerThrew string
  | DeleteDone

type_synonym outcome = "state \<times> task list \<times> effect list"

section \<open>Reloading the configuration\<close>

text \<open>The \<open>catch\<close> block of \<open>reloadConfig\<close>, up to its \<open>await\<close>.\<close>

definition reload_catch :: "state \<Rightarrow> string \<Rightarrow> outcome" where
  "reload_catch s e = (s, [AwaitToastDone], [Toast (''Voice config error: '' @ e) Error])"

text \<open>
  The condition \<^verbatim>\<open>!isMp3OutputFormat(loaded.config.outputFormat ?? "mp3")\<close> of the
  second notification. Reading a field of \<open>null\<close> throws, and so does
  \<open>isMp3OutputFormat\<close> on a value that is not a string, which has no method \<open>replace\<close>:
  \<open>Inl\<close> is the message of the error.
\<close>

definition unsupported :: "parsed \<Rightarrow> string + bool" where
  "unsupported loaded_config =
     (case loaded_config of
        Null e \<Rightarrow> Inl e
      | Object c \<Rightarrow>
          (case vc_outputFormat c of
             None \<Rightarrow> Inr (\<not> isMp3OutputFormat ''mp3'')
           | Some (FormatText f) \<Rightarrow> Inr (\<not> isMp3OutputFormat f)
           | Some (FormatFalsy e) \<Rightarrow> Inl e))"

text \<open>
  \<open>reloadConfig\<close> from its second notification on: with \<open>announce\<close> unset the condition
  is not evaluated.
\<close>

definition reload_warn :: "bool \<Rightarrow> state \<Rightarrow> parsed \<Rightarrow> outcome" where
  "reload_warn announce s loaded_config =
     (if announce then
        (case unsupported loaded_config of
           Inl e \<Rightarrow> reload_catch s e
         | Inr u \<Rightarrow>
             if u then
               (s, [AwaitToastDone],
                [Toast (''voice.json outputFormat not supported, using '' @ outputFormat (config s)) Warning])
             else (s, [], []))
      else (s, [], []))"

definition loaded_message :: "ConfigSource \<Rightarrow> state \<Rightarrow> string" where
  "loaded_message src s =
     ''Voice config loaded ('' @ source_str src @ ''). mode='' @ mode_str (mode (config s))
       @ '' enabled='' @ (if enabled (config s) then ''on'' else ''off'')"

text \<open>\<open>reloadConfig\<close> from the point where \<open>loadVoiceConfig\<close> has returned.\<close>

definition reload_apply :: "bool \<Rightarrow> state \<Rightarrow> LoadedConfig \<Rightarrow> outcome" where
  "reload_apply announce s loaded =
     (let cfg = defaultConfig (lc_config loaded);
          fp = fingerprint cfg (lc_source loaded);
          changed = (fp \<noteq> configFingerprint s);
          s' = s\<lparr>config := cfg, configSource := lc_source loaded, configFingerprint := fp\<rparr>
      in if announce \<and> changed then
           (s', [AwaitLoadedToast (lc_config loaded)],
            [Toast (loaded_message (lc_source loaded) s') Success])
         else reload_warn announce s' (lc_config loaded))"

text \<open>
  \<open>reloadConfig\<close> when \<open>loadVoiceConfig\<close> settles: the \<open>try\<close> body, or the \<open>catch\<close> block
  with the error that \<open>loadVoiceConfig\<close> has thrown.
\<close>

definition reload_settle :: "bool \<Rightarrow> state \<Rightarrow> files \<Rightarrow> outcome" where
  "reload_settle announce s f =
     (case loadVoiceConfig f of
        Inl e \<Rightarrow> reload_catch s e
      | Inr loaded \<Rightarrow> reload_apply announce s loaded)"

definition reloadConfig :: "bool \<Rightarrow> state \<Rightarrow> outcome" where
  "reloadConfig announce s = (s, [AwaitLoadConfig announce], [LoadFiles])"

section \<open>The speak procedure\<close>

text \<open>
  \<open>speakSession\<close> up to its first \<open>await\<close>. \<open>envKey\<close> is the value of
  \<open>ELEVENLABS_API_KEY\<close> in the process environment.
\<close>

definition speakSession :: "string option \<Rightarrow> state \<Rightarrow> string \<Rightarrow> reason \<Rightarrow> outcome" where
  "speakSession envKey s sid r =
     (if \<not> isEnabledForSession s sid then (s, [], [])
      else if speaking s then (s\<lparr>pendingSpeak := Some (sid, r)\<rparr>, [], [])
      else (case truthy envKey of
              None \<Rightarrow> (s, [AwaitToastDone], [Toast ''Missing ELEVENLABS_API_KEY'' Error])
            | Some key \<Rightarrow>
                (case truthy (voiceId (config s)) of
                   None \<Rightarrow> (s, [AwaitToastDone], [Toast ''Missing voiceId in voice.json'' Error])
                 | Some vid \<Rightarrow>
                     (let fmt = audioFormatFor (Some (outputFormat (config s)));
                          model = (case truthy (modelId (config s)) of
                                     Some m \<Rightarrow> m
                                   | None \<Rightarrow> (case truthy (language (config s)) of
                                                Some l \<Rightarrow> ''eleven_multilingual_v2''
                                              | None \<Rightarrow> ''eleven_turbo_v2_5''))
                      in (s\<lparr>speaking := True\<rparr>,
                          [AwaitMessages \<lparr>sessionID = sid, why = r, apiKey = key,
                             ctx_voiceId = vid, format = fmt, ctx_modelId = model\<rparr>],
                          [FetchMessages sid])))))"

text \<open>The \<open>catch\<close> block up to its \<open>await\<close>, and the \<open>finally\<close> block.\<close>

definition catch_speak :: "state \<Rightarrow> string \<Rightarrow> outcome" where
  "catch_speak s msg = (s, [AwaitErrorToast], [Toast (''Voice error: '' @ msg) Error])"

definition finally_speak :: "string option \<Rightarrow> state \<Rightarrow> outcome" where
  "finally_speak envKey s =
     (let s1 = s\<lparr>speaking := False\<rparr>;
          pending = pendingSpeak s1;
          s2 = s1\<lparr>pendingSpeak := None\<rparr>
      in case pending of
           None \<Rightarrow> (s2, [], [])
         | Some (sid, r) \<Rightarrow> speakSession envKey s2 sid r)"

definition start_tts :: "state \<Rightarrow> SpeakCtx \<Rightarrow> Latest \<Rightarrow> outcome" where
  "start_tts s c latest =
     (s, [AwaitTts c latest],
      [TtsCall \<lparr>p_apiKey = apiKey c, p_voiceId = ctx_voiceId c, p_text = spoken latest,
         p_modelId = ctx_modelId c, p_outputFormat = fmt_outputFormat (format c),
         p_accept = accept (format c)\<rparr>])"

text \<open>The \<open>try\<close> body from the point where the message list has arrived.\<close>

definition on_messages :: "string option \<Rightarrow> state \<Rightarrow> SpeakCtx \<Rightarrow> MessageWithParts list option \<Rightarrow> outcome" where
  "on_messages envKey s c data =
     (case getLatestAssistant s data of
        None \<Rightarrow> finally_speak envKey s
      | Some latest \<Rightarrow>
          if why c = Idle \<and> lastSpokenAssistantMessage s (sessionID c) = Some (messageID latest)
          then finally_speak envKey s
          else if truncated latest then
            (s, [AwaitTruncToast c latest],
             [Toast (''Voice: truncated to '' @ String_of_int (maxChars (config s)) @ '' chars'') Warning])
          else start_tts s c latest)"

text \<open>\<open>playAudio\<close> from the point where the audio file is written, and where it is deleted.\<close>

definition on_written :: "state \<Rightarrow> SpeakCtx \<Rightarrow> Latest \<Rightarrow> outcome" where
  "on_written s c latest =
     (if cmd (player (config s)) = [] then catch_speak s ''Missing player.cmd''
      else (s, [AwaitPlayer c latest], [PlayerCall (cmd (player (config s))) (args (player (config s)))]))"

definition on_deleted :: "string option \<Rightarrow> state \<Rightarrow> SpeakCtx \<Rightarrow> Latest \<Rightarrow> int \<Rightarrow> string \<Rightarrow> outcome" where
  "on_deleted envKey s c latest code err =
     (if code \<noteq> 0 then
        catch_speak s (if err \<noteq> [] then err else ''Player exited with code '' @ String_of_int code)
      else finally_speak envKey
             (s\<lparr>lastSpokenAssistantMessage :=
                  (lastSpokenAssistantMessage s)(sessionID c \<mapsto> messageID latest)\<rparr>))"

text \<open>
  A suspended call goes on when its promise settles. \<open>None\<close>: the response is not one
  the awaited promise can settle with.
\<close>

definition resume :: "string option \<Rightarrow> state \<Rightarrow> task \<Rightarrow> response \<Rightarrow> outcome option" where
  "resume envKey s t r =
     (case t of
        AwaitToastDone \<Rightarrow>
          (case r of ToastDone \<Rightarrow> Some (s, [], []) | _ \<Rightarrow> None)
      | AwaitLoadConfig announce \<Rightarrow>
          (case r of Loaded f \<Rightarrow> Some (reload_settle announce s f) | _ \<Rightarrow> None)
      | AwaitLoadedToast raw \<Rightarrow>
          (case r of ToastDone \<Rightarrow> Some (reload_warn True s raw) | _ \<Rightarrow> None)
      | AwaitMessages c \<Rightarrow>
          (case r of
             Messages data \<Rightarrow> Some (on_messages envKey s c data)
           | MessagesFailed e \<Rightarrow> Some (catch_speak s e)
           | _ \<Rightarrow> None)
      | AwaitTruncToast c latest \<Rightarrow>
          (case r of ToastDone \<Rightarrow> Some (start_tts s c latest) | _ \<Rightarrow> None)
      | AwaitTts c latest \<Rightarrow>
          (case r of
             TtsOk bytes \<Rightarrow> Some (s, [AwaitWrite c latest], [WriteFile bytes (ext (format c))])
           | TtsFailed e \<Rightarrow> Some (catch_speak s e)
           | _ \<Rightarrow> None)
      | AwaitWrite c latest \<Rightarrow>
          (case r of
             WriteOk \<Rightarrow> Some (on_written s c latest)
           | WriteFailed e \<Rightarrow> Some (catch_speak s e)
           | _ \<Rightarrow> None)
      | AwaitPlayer c latest \<Rightarrow>
          (case r of
             PlayerExit code err \<Rightarrow> Some (s, [AwaitDelete c latest code err], [DeleteFile])
           | PlayerThrew e \<Rightarrow> Some (catch_speak s e)
           | _ \<Rightarrow> None)
      | AwaitDelete c latest code err \<Rightarrow>
          (case r of DeleteDone \<Rightarrow> Some (on_deleted envKey s c latest code err) | _ \<Rightarrow> None)
      | AwaitErrorToast \<Rightarrow>
          (case r of ToastDone \<Rightarrow> Some (finally_speak envKey s) | _ \<Rightarrow> None))"

text \<open>
  What the promise awaited at each point can settle with. \<open>toast\<close> catches the rejection
  of \<open>showToast\<close> and the removal of the audio file catches its own, so these two are
  always fulfilled; \<open>loadVoiceConfig\<close> settles as the files it finds make it; the
  message list, the speech request, the write of the audio file and the player are
  fulfilled or rejected.
\<close>

definition settles_with :: "task \<Rightarrow> response \<Rightarrow> bool" where
  "settles_with t r =
     (case t of
        AwaitToastDone \<Rightarrow> r = ToastDone
      | AwaitLoadConfig announce \<Rightarrow> (case r of Loaded f \<Rightarrow> True | _ \<Rightarrow> False)
      | AwaitLoadedToast raw \<Rightarrow> r = ToastDone
      | AwaitMessages c \<Rightarrow>
          (case r of Messages data \<Rightarrow> True | MessagesFailed e \<Rightarrow> True | _ \<Rightarrow> False)
      | AwaitTruncToast c latest \<Rightarrow> r = ToastDone
      | AwaitTts c latest \<Rightarrow>
          (case r of TtsOk bytes \<Rightarrow> True | TtsFailed e \<Rightarrow> True | _ \<Rightarrow> False)
      | AwaitWrite c latest \<Rightarrow>
          (case r of WriteOk \<Rightarrow> True | WriteFailed e \<Rightarrow> True | _ \<Rightarrow> False)
      | AwaitPlayer c latest \<Rightarrow>
          (case r of PlayerExit code err \<Rightarrow> True | PlayerThrew e \<Rightarrow> True | _ \<Rightarrow> False)
      | AwaitDelete c latest code err \<Rightarrow> r = DeleteDone
      | AwaitErrorToast \<Rightarrow> r = ToastDone)"

section \<open>Commands and events\<close>

definition handleCommand :: "string option \<Rightarrow> state \<Rightarrow> string \<Rightarrow> outcome" where
  "handleCommand envKey s command =
     (let sid = truthy (lastSessionID s) in
      if command = ''voice.reload'' then reloadConfig True s
      else if command = ''voice.status'' then
        (let effective =
               (case sid of
                  Some i \<Rightarrow> if isEnabledForSession s i then ''on'' else ''off''
                | None \<Rightarrow> if enabled (config s) then ''on'' else ''off'')
         in (s, [AwaitToastDone],
             [Toast (''Voice '' @ effective @ ''. mode='' @ mode_str (mode (config s))
                       @ ''. source='' @ source_str (configSource s)) Info]))
      else if command = ''voice.mode.continuous'' then
        (s\<lparr>config := (config s)\<lparr>mode := Continuous\<rparr>\<rparr>, [AwaitToastDone],
         [Toast ''Voice mode: continuous'' Success])
      else if command = ''voice.mode.push-to-talk'' then
        (s\<lparr>config := (config s)\<lparr>mode := PushToTalk\<rparr>\<rparr>, [AwaitToastDone],
         [Toast ''Voice mode: push-to-talk'' Success])
      else if command = ''voice.speak'' then
        (case sid of
           None \<Rightarrow> (s, [AwaitToastDone], [Toast ''No active session to speak'' Warning])
         | Some i \<Rightarrow> speakSession envKey s i Manual)
      else if command = ''voice.on'' \<or> command = ''voice.off'' \<or> command = ''voice.toggle'' then
        (case sid of
           None \<Rightarrow>
             (let e1 = (if command = ''voice.toggle'' then \<not> enabled (config s) else enabled (config s));
                  e2 = (if command = ''voice.on'' then True else e1);
                  e3 = (if command = ''voice.off'' then False else e2)
              in (s\<lparr>config := (config s)\<lparr>enabled := e3\<rparr>\<rparr>, [AwaitToastDone],
                  [Toast (''Voice '' @ (if e3 then ''on'' else ''off'') @ '' (global)'') Success]))
         | Some i \<Rightarrow>
             (let currentlyOn = isEnabledForSession s i;
                  nextOn = (if command = ''voice.on'' then True
                            else if command = ''voice.off'' then False
                            else if command = ''voice.toggle'' then \<not> currentlyOn
                            else currentlyOn);
                  s' = (if nextOn then s\<lparr>disabledSessions := disabledSessions s - {i}\<rparr>
                        else s\<lparr>disabledSessions := insert i (disabledSessions s)\<rparr>)
              in (s', [AwaitToastDone],
                  [Toast (''Voice '' @ (if nextOn then ''on'' else ''off'') @ '' (session)'') Success])))
      else (s, [], []))"

text \<open>
  The events the handler reads, each with the one property it takes from the payload
  (\<open>None\<close>: the property is missing). For \<open>file.watcher.updated\<close> the second component
  says whether the file, resolved against the project root by the runtime's path
  functions, is the project's or the global \<open>voice.json\<close>.
\<close>

datatype event =
    SessionIdle "string option"
  | MessageUpdated "string option"
  | SessionDeleted "string option"
  | TuiCommandExecute "string option"
  | FileWatcherUpdated "string option" bool
  | OtherEvent

definition handle_event :: "string option \<Rightarrow> state \<Rightarrow> event \<Rightarrow> outcome" where
  "handle_event envKey s e =
     (case e of
        SessionIdle p \<Rightarrow>
          (case truthy p of
             None \<Rightarrow> (s, [], [])
           | Some i \<Rightarrow>
               (let s' = s\<lparr>lastSessionID := Some i\<rparr> in
                if mode (config s') = Continuous then speakSession envKey s' i Idle
                else (s', [], [])))
      | MessageUpdated p \<Rightarrow>
          (case truthy p of
             None \<Rightarrow> (s, [], [])
           | Some i \<Rightarrow> (s\<lparr>lastSessionID := Some i\<rparr>, [], []))
      | SessionDeleted p \<Rightarrow>
          (case truthy p of
             None \<Rightarrow> (s, [], [])
           | Some i \<Rightarrow>
               (s\<lparr>disabledSessions := disabledSessions s - {i},
                   lastSpokenAssistantMessage := (lastSpokenAssistantMessage s)(i := None)\<rparr>, [], []))
      | TuiCommandExecute p \<Rightarrow>
          (case truthy p of
             None \<Rightarrow> (s, [], [])
           | Some c \<Rightarrow> if take 6 c \<noteq> ''voice.'' then (s, [], []) else handleCommand envKey s c)
      | FileWatcherUpdated p isConfig \<Rightarrow>
          (case truthy p of
             None \<Rightarrow> (s, [], [])
           | Some f \<Rightarrow> if isConfig then reloadConfig False s else (s, [], []))
      | OtherEvent \<Rightarrow> (s, [], []))"

section \<open>The plugin as a transition system\<close>

text \<open>
  A \<open>world\<close> is the plugin between two uninterrupted runs of its code: the state, the
  suspended calls, what it has asked of its collaborators so far, and the credential
  in the process environment. An \<open>input\<close> is what the JavaScript event loop runs next:
  the host delivers an event, the promise awaited by the suspended call at a position
  settles, or the environment changes. Every world is a suspension point.
\<close>

record world =
  st :: state
  tasks :: "task list"
  effects :: "effect list"
  env_apiKey :: "string option"

datatype input = Deliver event | Settle nat response | SetApiKey "string option"

definition step :: "world \<Rightarrow> input \<Rightarrow> world" where
  "step w i =
     (case i of
        Deliver e \<Rightarrow>
          (case handle_event (env_apiKey w) (st w) e of
             (s', ts, es) \<Rightarrow> w\<lparr>st := s', tasks := tasks w @ ts, effects := effects w @ es\<rparr>)
      | Settle n r \<Rightarrow>
          (if n < length (tasks w) then
             (case resume (env_apiKey w) (st w) (tasks w ! n) r of
                None \<Rightarrow> w
              | Some (s', ts, es) \<Rightarrow>
                  w\<lparr>st := s', tasks := take n (tasks w) @ ts @ drop (Suc n) (tasks w),
                    effects := effects w @ es\<rparr>)
           else w)
      | SetApiKey k \<Rightarrow> w\<lparr>env_apiKey := k\<rparr>)"

fun run :: "world \<Rightarrow> input list \<Rightarrow> world" where
  "run w [] = w"
| "run w (i # rest) = run (step w i) rest"

text \<open>The plugin's initialiser builds the state and awaits \<open>reloadConfig({announce: true})\<close>.\<close>

definition initial_world :: "string option \<Rightarrow> world" where
  "initial_world k =
     \<lparr>st = initial_state, tasks = [AwaitLoadConfig True], effects = [LoadFiles], env_apiKey = k\<rparr>"

text \<open>
  A task is in the speak pipeline when it is suspended inside the \<open>try\<close> statement of
  \<open>speakSession\<close>: between \<open>state.speaking = true\<close> and the end of \<open>finally\<close>.
\<close>

definition in_pipeline :: "task \<Rightarrow> bool" where
  "in_pipeline t =
     (case t of
        AwaitMessages c \<Rightarrow> True
      | AwaitTruncToast c l \<Rightarrow> True
      | AwaitTts c l \<Rightarrow> True
      | AwaitWrite c l \<Rightarrow> True
      | AwaitPlayer c l \<Rightarrow> True
      | AwaitDelete c l code err \<Rightarrow> True
      | AwaitErrorToast \<Rightarrow> True
      | _ \<Rightarrow> False)"

definition tts_calls :: "effect list \<Rightarrow> nat" where
  "tts_calls es = length (filter (\<lambda>e. case e of TtsCall p \<Rightarrow> True | _ \<Rightarrow> False) es)"

definition player_calls :: "effect list \<Rightarrow> nat" where
  "player_calls es = length (filter (\<lambda>e. case e of PlayerCall c a \<Rightarrow> True | _ \<Rightarrow> False) es)"

section \<open>Definitions for the properties\<close>

subsection \<open>Session policy\<close>

text \<open>
  A run that reaches a state with the global flag off and an active session: the
  configuration file read at start says \<open>enabled: false\<close>, then a message of
  session \<open>s1\<close> is updated.
\<close>

definition disabled_file :: files where
  "disabled_file =
     \<lparr>fs_home = None, fs_project = Some (Parsed (Object (empty_config\<lparr>vc_enabled := Some False\<rparr>))),
      fs_global = None\<rparr>"

definition globally_off_world :: world where
  "globally_off_world =
     run (initial_world None)
       [Settle 0 (Loaded disabled_file), Settle 0 ToastDone, Deliver (MessageUpdated (Some ''s1''))]"

definition session_world :: world where
  "session_world = run (initial_world None) [Deliver (MessageUpdated (Some ''s1''))]"

subsection \<open>Configuration reload\<close>








subsection \<open>Arbitration\<close>

text \<open>
  The number of suspended calls inside the speak pipeline, and the arbitration
  invariant: that number is one while \<open>state.speaking\<close> is set and zero otherwise, and
  the pending slot is populated only while \<open>state.speaking\<close> is set.
\<close>

definition pipeline_count :: "task list \<Rightarrow> nat" where
  "pipeline_count ts = length (filter in_pipeline ts)"

definition consistent :: "state \<Rightarrow> task list \<Rightarrow> bool" where
  "consistent s ts =
     (pipeline_count ts = (if speaking s then 1 else 0) \<and> (pendingSpeak s = None \<or> speaking s))"

definition arbitration_inv :: "world \<Rightarrow> bool" where
  "arbitration_inv w = consistent (st w) (tasks w)"

subsection \<open>The pipeline, step by step\<close>

text \<open>
  \<open>remaining\<close> bounds the promises a suspended pipeline call still awaits before its
  \<open>finally\<close> block runs: the message list, the truncation notice, the speech request,
  the audio file, the player, the file's removal, and the error notice of \<open>catch\<close>.
\<close>

definition remaining :: "task \<Rightarrow> nat" where
  "remaining t =
     (case t of
        AwaitMessages c \<Rightarrow> 7
      | AwaitTruncToast c l \<Rightarrow> 6
      | AwaitTts c l \<Rightarrow> 5
      | AwaitWrite c l \<Rightarrow> 4
      | AwaitPlayer c l \<Rightarrow> 3
      | AwaitDelete c l code err \<Rightarrow> 2
      | AwaitErrorToast \<Rightarrow> 1
      | _ \<Rightarrow> 0)"

definition tts_in_flight :: "task list \<Rightarrow> nat" where
  "tts_in_flight ts = length (filter (\<lambda>t. case t of AwaitTts c l \<Rightarrow> True | _ \<Rightarrow> False) ts)"

definition playback_in_flight :: "task list \<Rightarrow> nat" where
  "playback_in_flight ts = length (filter (\<lambda>t. case t of AwaitPlayer c l \<Rightarrow> True | _ \<Rightarrow> False) ts)"

text \<open>
  A plugin that started on a configuration with a voice id, with the credential set,
  and has begun to speak for session \<open>s1\<close>: its pipeline awaits the message list.
\<close>

definition voice_file :: files where
  "voice_file =
     \<lparr>fs_home = None, fs_project = Some (Parsed (Object (empty_config\<lparr>vc_voiceId := Some ''v''\<rparr>))),
      fs_global = None\<rparr>"

definition speaking_inputs :: "input list" where
  "speaking_inputs =
     [Settle 0 (Loaded voice_file), Settle 0 ToastDone, Deliver (SessionIdle (Some ''s1''))]"

definition speaking_world :: world where
  "speaking_world = run (initial_world (Some ''key'')) speaking_inputs"

definition s1_ctx :: "string \<Rightarrow> reason \<Rightarrow> SpeakCtx" where
  "s1_ctx i r =
     \<lparr>sessionID = i, why = r, apiKey = ''key'', ctx_voiceId = ''v'',
      format = \<lparr>accept = ''audio/mpeg'', ext = ''mp3'', fmt_outputFormat = ''mp3_44100_128''\<rparr>,
      ctx_modelId = ''eleven_turbo_v2_5''\<rparr>"

subsection \<open>Single flight and the pending slot\<close>

text \<open>
  Three runs of that plugin while it speaks for \<open>s1\<close>: a manual request is queued and
  the session is switched off; an idle request for \<open>s2\<close> is queued; \<open>s2\<close> is switched
  off and an idle request for \<open>s1\<close> is queued.
\<close>

definition dropped_inputs :: "input list" where
  "dropped_inputs =
     speaking_inputs @
     [Deliver (TuiCommandExecute (Some ''voice.speak'')),
      Deliver (TuiCommandExecute (Some ''voice.off''))]"

definition queued_inputs :: "input list" where
  "queued_inputs = speaking_inputs @ [Deliver (SessionIdle (Some ''s2''))]"

definition disabled_session_inputs :: "input list" where
  "disabled_session_inputs =
     speaking_inputs @
     [Deliver (MessageUpdated (Some ''s2'')),
      Deliver (TuiCommandExecute (Some ''voice.off'')),
      Deliver (SessionIdle (Some ''s1''))]"

subsection \<open>Every outcome releases the arbitrator\<close>

text \<open>The latest message of a session, as \<open>getLatestAssistant\<close> returns it.\<close>

definition hello :: Latest where
  "hello = \<lparr>messageID = ''m1'', spoken = js ''hello'', truncated = False\<rparr>"

subsection \<open>The global flag\<close>

text \<open>The global flag is off before each input of a run.\<close>

fun always_disabled :: "world \<Rightarrow> input list \<Rightarrow> bool" where
  "always_disabled w [] = True"
| "always_disabled w (i # rest) = (\<not> enabled (config (st w)) \<and> always_disabled (step w i) rest)"

subsection \<open>The last spoken message\<close>

text \<open>The message list of a session whose one message is the assistant's \<open>hello\<close>.\<close>

definition hello_messages :: "MessageWithParts list option" where
  "hello_messages =
     Some [\<lparr>info = \<lparr>msg_id = ''m1'', role = ''assistant''\<rparr>, parts = [TextPart (js ''hello'') False]\<rparr>]"

subsection \<open>Duplicate suppression\<close>

text \<open>
  The locals of the \<open>speakSession\<close> call that starts a pipeline in state \<open>s\<close>, and the
  parameters of its speech request.
\<close>

definition speak_ctx :: "state \<Rightarrow> string \<Rightarrow> reason \<Rightarrow> string \<Rightarrow> string \<Rightarrow> SpeakCtx" where
  "speak_ctx s sid r key vid =
     \<lparr>sessionID = sid, why = r, apiKey = key, ctx_voiceId = vid,
      format = audioFormatFor (Some (outputFormat (config s))),
      ctx_modelId = (case truthy (modelId (config s)) of
                       Some m \<Rightarrow> m
                     | None \<Rightarrow> (case truthy (language (config s)) of
                                  Some l \<Rightarrow> ''eleven_multilingual_v2''
                                | None \<Rightarrow> ''eleven_turbo_v2_5''))\<rparr>"

text \<open>
  \<open>settle_success\<close> are the promises of one pipeline, for the call at position \<open>n\<close>, all
  settled with success: the message list, the truncation notice if the text was cut,
  the audio bytes, the written file, the player's exit code 0 and the removed file.
\<close>

definition settle_toast :: "nat \<Rightarrow> Latest \<Rightarrow> input list" where
  "settle_toast n latest = (if truncated latest then [Settle n ToastDone] else [])"

definition settle_success :: "nat \<Rightarrow> MessageWithParts list option \<Rightarrow> Latest \<Rightarrow> nat list \<Rightarrow> string \<Rightarrow> input list" where
  "settle_success n msgs latest bytes err =
     Settle n (Messages msgs) # settle_toast n latest
       @ [Settle n (TtsOk bytes), Settle n WriteOk, Settle n (PlayerExit 0 err), Settle n DeleteDone]"

definition tts_params :: "SpeakCtx \<Rightarrow> Latest \<Rightarrow> TtsParams" where
  "tts_params c latest =
     \<lparr>p_apiKey = apiKey c, p_voiceId = ctx_voiceId c, p_text = spoken latest,
      p_modelId = ctx_modelId c, p_outputFormat = fmt_outputFormat (format c),
      p_accept = accept (format c)\<rparr>"

text \<open>
  The inputs of the scenario: an idle event for the session whose pipeline succeeds;
  then a second idle event and its message list; or a \<open>voice.speak\<close> command, its
  message list and the truncation notice. \<open>ready_world\<close> is a plugin that started on a
  configuration with a voice id, with the credential set, and is idle.
\<close>

definition first_idle :: "world \<Rightarrow> string \<Rightarrow> MessageWithParts list option \<Rightarrow> Latest \<Rightarrow> nat list \<Rightarrow> string \<Rightarrow> input list" where
  "first_idle w sid msgs latest bytes err =
     Deliver (SessionIdle (Some sid)) # settle_success (length (tasks w)) msgs latest bytes err"

definition second_idle :: "world \<Rightarrow> string \<Rightarrow> MessageWithParts list option \<Rightarrow> input list" where
  "second_idle w sid msgs = [Deliver (SessionIdle (Some sid)), Settle (length (tasks w)) (Messages msgs)]"

definition then_manual :: "world \<Rightarrow> MessageWithParts list option \<Rightarrow> Latest \<Rightarrow> input list" where
  "then_manual w msgs latest =
     Deliver (TuiCommandExecute (Some ''voice.speak''))
       # Settle (length (tasks w)) (Messages msgs) # settle_toast (length (tasks w)) latest"

text \<open>The second idle event arrives while the pipeline of the first is in flight.\<close>

definition queued_idle :: "world \<Rightarrow> string \<Rightarrow> MessageWithParts list option \<Rightarrow> Latest \<Rightarrow> nat list \<Rightarrow> string \<Rightarrow> input list" where
  "queued_idle w sid msgs latest bytes err =
     Deliver (SessionIdle (Some sid)) # Deliver (SessionIdle (Some sid))
       # settle_success (length (tasks w)) msgs latest bytes err
       @ [Settle (length (tasks w)) (Messages msgs)]"

definition ready_world :: world where
  "ready_world = run (initial_world (Some ''key'')) [Settle 0 (Loaded voice_file), Settle 0 ToastDone]"

subsection \<open>Sanitisation\<close>

text \<open>
  \<open>has_fence t\<close>: three backquotes in a row occur in \<open>t\<close>. No fence starts inside a
  text \<open>t\<close> that is followed by a fence when \<open>t\<close> with two backquotes appended has none.
\<close>

definition has_fence :: "jsstring \<Rightarrow> bool" where
  "has_fence t = (find_fence_close t \<noteq> None)"

text \<open>
  A text is single-spaced when every whitespace code unit in it is a space (32) and no
  two whitespace code units are adjacent; it is trimmed when it neither starts nor
  ends with whitespace.
\<close>

fun single_spaced :: "jsstring \<Rightarrow> bool" where
  "single_spaced [] = True"
| "single_spaced [x] = (if is_space x then x = 32 else True)"
| "single_spaced (x # y # r) =
     ((if is_space x then x = 32 \<and> \<not> is_space y else True) \<and> single_spaced (y # r))"

definition trimmed :: "jsstring \<Rightarrow> bool" where
  "trimmed t = (if t = [] then True else \<not> is_space (hd t) \<and> \<not> is_space (last t))"

text \<open>
  Follows the specification's words, not the source: a fenced code block is a
  \<^emph>\<open>greedy\<close> region delimited by three backquotes, so the region that starts at an
  opening fence runs to the last closing fence of the text. \<open>find_last_fence_close\<close>
  returns what follows the last three backquotes of its argument; \<open>sanitize_greedy\<close>
  is \<open>sanitizeForTts\<close> with this first replacement in place of the source's.
\<close>

definition find_last_fence_close :: "jsstring \<Rightarrow> jsstring option" where
  "find_last_fence_close xs =
     (case find_fence_close (rev xs) of
        None \<Rightarrow> None
      | Some before \<Rightarrow> Some (drop (length before + 3) xs))"

function strip_fences_greedy :: "jsstring \<Rightarrow> jsstring" where
  "strip_fences_greedy [] = []"
| "strip_fences_greedy (x # xs) =
     (if take 3 (x # xs) = fence then
        (case find_last_fence_close (drop 3 (x # xs)) of
           Some rest \<Rightarrow> 32 # strip_fences_greedy rest
         | None \<Rightarrow> x # strip_fences_greedy xs)
      else x # strip_fences_greedy xs)"
  by pat_completeness auto
termination
proof (relation "measure length")
  fix x :: nat and xs rest :: "nat list"
  assume "find_last_fence_close (drop 3 (x # xs)) = Some rest"
  then have "length rest \<le> length (drop 3 (x # xs))"
    by (auto simp: find_last_fence_close_def split: option.splits)
  then show "(rest, x # xs) \<in> measure length" by simp
qed simp_all

definition sanitize_greedy :: "jsstring \<Rightarrow> jsstring" where
  "sanitize_greedy t = trim (collapse_ws (rewrite_links (strip_inline (strip_fences_greedy t))))"

definition two_blocks :: jsstring where
  "two_blocks = fence @ js ''a'' @ fence @ js ''b'' @ fence @ js ''c'' @ fence"

text \<open>
  \<open>no_link_in pre rest\<close>: in the text \<open>pre\<close> followed by \<open>rest\<close>, no link starts at a
  position inside \<open>pre\<close>.
\<close>

fun no_link_in :: "jsstring \<Rightarrow> jsstring \<Rightarrow> bool" where
  "no_link_in [] rest = True"
| "no_link_in (x # pre) rest = (match_link (x # pre @ rest) = None \<and> no_link_in pre rest)"

text \<open>A message with a fenced block, an inline span, a bracket that starts no link, and a link.\<close>

definition mixed :: jsstring where
  "mixed = js ''Run '' @ fence @ js ''x = 1'' @ fence @ js '' then '' @ 96 # js ''f(x)'' @ 96 # js ''  see [1] [the docs](http://a.b/c). ''"

section \<open>Session policy\<close>

lemmas world_eval =
  step_def initial_world_def initial_state_def handle_event_def handleCommand_def resume_def
  reload_settle_def reload_apply_def reload_warn_def reload_catch_def unsupported_def
  reloadConfig_def loadVoiceConfig_def fields_of_def as_condition_def
  read_config_def disabled_file_def empty_config_def defaultConfig_def audioFormatFor_def
  isMp3OutputFormat_def normalizeSlash_def lower_char_def truthy_def fingerprint_def
  or_empty_def source_str_def mode_str_def String_of_int_def string_of_nat.simps digit_def
  loaded_message_def isEnabledForSession_def Let_def

lemma globally_off_world_state:
  "enabled (config (st globally_off_world)) = False
   \<and> lastSessionID (st globally_off_world) = Some ''s1''
   \<and> disabledSessions (st globally_off_world) = {}"
  by (simp add: globally_off_world_def world_eval)

lemma session_world_state:
  "enabled (config (st session_world)) = True
   \<and> lastSessionID (st session_world) = Some ''s1''
   \<and> disabledSessions (st session_world) = {}"
  by (simp add: session_world_def world_eval)

text \<open>
  C7, as far as the code goes. \<open>voice.toggle\<close> with an active session leaves the global
  flag as it is and changes the disabled set at most at that session. While the
  global flag is on, it inverts \<open>isEnabledForSession\<close> for the session. While the
  global flag is off the session stays disabled after the toggle: the command only
  takes the session out of the disabled set, and no override forces a session on.
\<close>

theorem toggle_active_session:
  assumes "lastSessionID s = Some i" and "i \<noteq> []"
    and "handleCommand k s ''voice.toggle'' = (s', ts, es)"
  shows "enabled (config s') = enabled (config s)
    \<and> (\<forall>j. j \<noteq> i \<longrightarrow> (j \<in> disabledSessions s') = (j \<in> disabledSessions s))
    \<and> (enabled (config s) \<longrightarrow> isEnabledForSession s' i = (\<not> isEnabledForSession s i))
    \<and> (\<not> enabled (config s) \<longrightarrow> \<not> isEnabledForSession s' i \<and> i \<notin> disabledSessions s')"
  using assms
  by (auto simp: handleCommand_def truthy_def isEnabledForSession_def Let_def split: if_splits)

theorem toggle_active_session_witness:
  "isEnabledForSession (fst (handleCommand None (st session_world) ''voice.toggle'')) ''s1''
     = (\<not> isEnabledForSession (st session_world) ''s1'')
   \<and> enabled (config (fst (handleCommand None (st session_world) ''voice.toggle'')))
     = enabled (config (st session_world))
   \<and> \<not> isEnabledForSession (fst (handleCommand None (st globally_off_world) ''voice.toggle'')) ''s1''"
proof -
  have a: "handleCommand None (st session_world) ''voice.toggle''
      = (fst (handleCommand None (st session_world) ''voice.toggle''),
         fst (snd (handleCommand None (st session_world) ''voice.toggle'')),
         snd (snd (handleCommand None (st session_world) ''voice.toggle'')))"
    by simp
  have b: "handleCommand None (st globally_off_world) ''voice.toggle''
      = (fst (handleCommand None (st globally_off_world) ''voice.toggle''),
         fst (snd (handleCommand None (st globally_off_world) ''voice.toggle'')),
         snd (snd (handleCommand None (st globally_off_world) ''voice.toggle'')))"
    by simp
  have n: "''s1'' \<noteq> []" by simp
  show ?thesis
    using toggle_active_session [OF _ n a] toggle_active_session [OF _ n b]
      session_world_state globally_off_world_state
    by simp
qed

text \<open>
  The claim as written fails while the global flag is off: the toggle of the active
  session \<open>s1\<close> leaves \<open>isEnabledForSession\<close> false, where its negation is true.
\<close>

theorem toggle_active_session_counterexample:
  "isEnabledForSession
     (st (step globally_off_world (Deliver (TuiCommandExecute (Some ''voice.toggle''))))) ''s1''
   \<noteq> (\<not> isEnabledForSession (st globally_off_world) ''s1'')"
  by (simp add: globally_off_world_def world_eval)

section \<open>Configuration reload\<close>










section \<open>Arbitration\<close>

lemma isEnabledForSession_iff:
  "isEnabledForSession s sid = (enabled (config s) \<and> sid \<notin> disabledSessions s)"
  by (simp add: isEnabledForSession_def)

lemma pipeline_count_simps [simp]:
  "pipeline_count [] = 0"
  "pipeline_count (t # ts) = (if in_pipeline t then 1 else 0) + pipeline_count ts"
  "pipeline_count (xs @ ys) = pipeline_count xs + pipeline_count ys"
  by (simp_all add: pipeline_count_def)

lemma in_pipeline_simps [simp]:
  "in_pipeline AwaitToastDone = False"
  "in_pipeline (AwaitLoadConfig a) = False"
  "in_pipeline (AwaitLoadedToast raw) = False"
  "in_pipeline (AwaitMessages c) = True"
  "in_pipeline (AwaitTruncToast c l) = True"
  "in_pipeline (AwaitTts c l) = True"
  "in_pipeline (AwaitWrite c l) = True"
  "in_pipeline (AwaitPlayer c l) = True"
  "in_pipeline (AwaitDelete c l code err) = True"
  "in_pipeline AwaitErrorToast = True"
  by (simp_all add: in_pipeline_def)

lemma speakSession_busy:
  assumes "speaking s" and "speakSession k s sid r = (s', ts, es)"
  shows "speaking s' \<and> ts = [] \<and> es = []
    \<and> (if isEnabledForSession s sid then s' = s\<lparr>pendingSpeak := Some (sid, r)\<rparr> else s' = s)"
  using assms by (auto simp: speakSession_def split: if_splits)

lemma speakSession_free:
  assumes "\<not> speaking s" and "speakSession k s sid r = (s', ts, es)"
  shows "pendingSpeak s' = pendingSpeak s
    \<and> pipeline_count ts = (if speaking s' then 1 else 0)
    \<and> lastSpokenAssistantMessage s' = lastSpokenAssistantMessage s"
  using assms by (auto simp: speakSession_def Let_def split: if_splits option.splits)

lemma finally_speak_consistent:
  assumes "finally_speak k s = (s', ts, es)"
  shows "consistent s' ts \<and> pendingSpeak s' = None"
proof (cases "pendingSpeak s")
  case None
  with assms show ?thesis by (auto simp: finally_speak_def consistent_def)
next
  case (Some p)
  obtain sid r where p: "p = (sid, r)" by (cases p)
  let ?s = "s\<lparr>speaking := False, pendingSpeak := None\<rparr>"
  from assms Some p have "speakSession k ?s sid r = (s', ts, es)"
    by (simp add: finally_speak_def)
  from speakSession_free [OF _ this] show ?thesis
    by (simp add: consistent_def)
qed

lemma on_messages_consistent:
  assumes "speaking s" and "on_messages k s c d = (s', ts, es)"
  shows "consistent s' ts"
  using assms finally_speak_consistent [of k s s' ts es]
  by (auto simp: on_messages_def start_tts_def consistent_def split: option.splits if_splits)

lemma on_deleted_consistent:
  assumes "speaking s" and "on_deleted k s c l code err = (s', ts, es)"
  shows "consistent s' ts"
  using assms
    finally_speak_consistent [of k "s\<lparr>lastSpokenAssistantMessage :=
                  (lastSpokenAssistantMessage s)(sessionID c \<mapsto> messageID l)\<rparr>" s' ts es]
  by (auto simp: on_deleted_def catch_speak_def consistent_def split: if_splits)

lemma resume_pipeline:
  assumes "in_pipeline t" and "speaking s" and "resume k s t r = Some (s', ts, es)"
  shows "consistent s' ts"
proof (cases t)
  case (AwaitMessages c)
  with assms show ?thesis
    using on_messages_consistent [of s k c _ s' ts es]
    by (cases r) (auto simp: resume_def catch_speak_def consistent_def)
next
  case (AwaitDelete c l code err)
  with assms show ?thesis
    using on_deleted_consistent [of s k c l code err s' ts es]
    by (cases r) (auto simp: resume_def)
next
  case AwaitErrorToast
  with assms show ?thesis
    using finally_speak_consistent [of k s s' ts es]
    by (cases r) (auto simp: resume_def)
qed (use assms in \<open>cases r; auto simp: resume_def catch_speak_def start_tts_def on_written_def
      consistent_def split: if_splits\<close>)+

lemma resume_other:
  assumes "\<not> in_pipeline t" and "resume k s t r = Some (s', ts, es)"
  shows "speaking s' = speaking s \<and> pendingSpeak s' = pendingSpeak s \<and> pipeline_count ts = 0
    \<and> lastSpokenAssistantMessage s' = lastSpokenAssistantMessage s"
  using assms
  by (cases t; cases r)
     (auto simp: resume_def reload_settle_def reload_apply_def reload_warn_def reload_catch_def Let_def
           split: sum.splits if_splits)

lemma speakSession_consistent:
  assumes "consistent s ts0" and "speakSession k s sid r = (s', ts, es)"
  shows "consistent s' (ts0 @ ts)"
proof (cases "speaking s")
  case True
  from speakSession_busy [OF True assms(2)] assms(1) True show ?thesis
    by (auto simp: consistent_def split: if_splits)
next
  case False
  from speakSession_free [OF False assms(2)] assms(1) False show ?thesis
    by (auto simp: consistent_def split: if_splits)
qed

lemma handleCommand_consistent:
  assumes "consistent s ts0" and "handleCommand k s c = (s', ts, es)"
  shows "consistent s' (ts0 @ ts)"
proof (cases "c = ''voice.speak'' \<and> truthy (lastSessionID s) \<noteq> None")
  case True
  then obtain i where "truthy (lastSessionID s) = Some i" by auto
  with True assms(2) have "speakSession k s i Manual = (s', ts, es)"
    by (simp add: handleCommand_def)
  from speakSession_consistent [OF assms(1) this] show ?thesis .
next
  case False
  with assms show ?thesis
    by (auto simp: handleCommand_def reloadConfig_def consistent_def Let_def
        split: if_splits option.splits)
qed

lemma handle_event_consistent:
  assumes "consistent s ts0" and "handle_event k s e = (s', ts, es)"
  shows "consistent s' (ts0 @ ts)"
proof (cases e)
  case (SessionIdle p)
  show ?thesis
  proof (cases "truthy p")
    case None
    with assms SessionIdle show ?thesis by (simp add: handle_event_def)
  next
    case (Some i)
    have c: "consistent (s\<lparr>lastSessionID := Some i\<rparr>) ts0"
      using assms(1) by (simp add: consistent_def)
    show ?thesis
    proof (cases "mode (config s) = Continuous")
      case True
      with assms(2) SessionIdle Some
      have "speakSession k (s\<lparr>lastSessionID := Some i\<rparr>) i Idle = (s', ts, es)"
        by (simp add: handle_event_def)
      from speakSession_consistent [OF c this] show ?thesis .
    next
      case False
      with assms(2) SessionIdle Some c show ?thesis
        by (auto simp: handle_event_def)
    qed
  qed
next
  case (TuiCommandExecute p)
  with assms show ?thesis
    using handleCommand_consistent [OF assms(1), of k _ s' ts es]
    by (auto simp: handle_event_def split: option.splits if_splits)
qed (use assms in \<open>auto simp: handle_event_def reloadConfig_def consistent_def
      split: option.splits if_splits\<close>)

lemma pipeline_count_split:
  assumes "n < length T"
  shows "pipeline_count T
    = pipeline_count (take n T) + (if in_pipeline (T ! n) then 1 else 0)
      + pipeline_count (drop (Suc n) T)"
proof -
  have "T = take n T @ (T ! n) # drop (Suc n) T"
    using assms by (simp add: id_take_nth_drop)
  then have "pipeline_count T = pipeline_count (take n T @ (T ! n) # drop (Suc n) T)"
    by simp
  then show ?thesis by simp
qed

lemma step_preserves_arbitration:
  assumes "arbitration_inv w"
  shows "arbitration_inv (step w i)"
proof (cases i)
  case (Deliver e)
  obtain s' ts es where h: "handle_event (env_apiKey w) (st w) e = (s', ts, es)"
    by (cases "handle_event (env_apiKey w) (st w) e")
  from handle_event_consistent [OF _ h] assms Deliver h show ?thesis
    by (simp add: arbitration_inv_def step_def)
next
  case (SetApiKey k)
  with assms show ?thesis by (simp add: arbitration_inv_def step_def)
next
  case (Settle n r)
  show ?thesis
  proof (cases "n < length (tasks w)")
    case False
    with Settle assms show ?thesis by (simp add: step_def)
  next
    case True
    show ?thesis
    proof (cases "resume (env_apiKey w) (st w) (tasks w ! n) r")
      case None
      with Settle True assms show ?thesis by (simp add: step_def)
    next
      case (Some out)
      obtain s' ts es where out: "out = (s', ts, es)" by (cases out)
      have w': "st (step w i) = s'"
        "tasks (step w i) = take n (tasks w) @ ts @ drop (Suc n) (tasks w)"
        using Settle True Some out by (simp_all add: step_def)
      note split = pipeline_count_split [OF True]
      show ?thesis
      proof (cases "in_pipeline (tasks w ! n)")
        case p: True
        with split assms have sp: "speaking (st w)"
          and rest: "pipeline_count (take n (tasks w)) = 0" "pipeline_count (drop (Suc n) (tasks w)) = 0"
          by (auto simp: arbitration_inv_def consistent_def split: if_splits)
        from resume_pipeline [OF p sp] Some out have "consistent s' ts" by simp
        with rest w' show ?thesis
          by (simp add: arbitration_inv_def consistent_def)
      next
        case q: False
        from resume_other [OF q] Some out
        have "speaking s' = speaking (st w)" "pendingSpeak s' = pendingSpeak (st w)"
          "pipeline_count ts = 0" by simp_all
        with split q assms w' show ?thesis
          by (simp add: arbitration_inv_def consistent_def)
      qed
    qed
  qed
qed

lemma run_preserves_arbitration:
  "arbitration_inv w \<Longrightarrow> arbitration_inv (run w is)"
  by (induction "is" arbitrary: w) (simp_all add: step_preserves_arbitration)

lemma initial_arbitration: "arbitration_inv (initial_world k)"
  by (simp add: arbitration_inv_def consistent_def initial_world_def initial_state_def)

section \<open>The pipeline, step by step\<close>

lemma filter_length_mono:
  "(\<And>x. P x \<Longrightarrow> Q x) \<Longrightarrow> length (filter P xs) \<le> length (filter Q xs)"
  by (induction xs) auto

lemma tts_in_flight_le: "tts_in_flight ts \<le> pipeline_count ts"
  unfolding tts_in_flight_def pipeline_count_def
  by (rule filter_length_mono) (auto simp: in_pipeline_def split: task.splits)

lemma playback_in_flight_le: "playback_in_flight ts \<le> pipeline_count ts"
  unfolding playback_in_flight_def pipeline_count_def
  by (rule filter_length_mono) (auto simp: in_pipeline_def split: task.splits)

lemma reachable_single_flight:
  "pipeline_count (tasks (run (initial_world k) ins)) = (if speaking (st (run (initial_world k) ins)) then 1 else 0)
   \<and> (pendingSpeak (st (run (initial_world k) ins)) = None \<or> speaking (st (run (initial_world k) ins)))"
  using run_preserves_arbitration [OF initial_arbitration, of k ins]
  by (simp add: arbitration_inv_def consistent_def)

text \<open>Every settled promise of the pipeline moves it on, or ends it in the finally block.\<close>

lemma resume_pipeline_cases:
  assumes "in_pipeline t" and "resume k s t r = Some (s', ts, es)"
  shows "(\<exists>t'. ts = [t'] \<and> in_pipeline t' \<and> remaining t' < remaining t \<and> s' = s)
    \<or> (s', ts, es) = finally_speak k s
    \<or> (\<exists>c l err. t = AwaitDelete c l 0 err \<and> r = DeleteDone
         \<and> (s', ts, es) = finally_speak k (s\<lparr>lastSpokenAssistantMessage :=
               (lastSpokenAssistantMessage s)(sessionID c \<mapsto> messageID l)\<rparr>))"
  using assms
  by (cases t; cases r)
     (auto simp: resume_def on_messages_def on_deleted_def on_written_def catch_speak_def
        start_tts_def remaining_def split: option.splits if_splits)

lemma finally_speak_lastSpoken:
  assumes "finally_speak k s = (s', ts, es)"
  shows "lastSpokenAssistantMessage s' = lastSpokenAssistantMessage s"
proof (cases "pendingSpeak s")
  case None
  with assms show ?thesis by (auto simp: finally_speak_def)
next
  case (Some p)
  obtain sid r where "p = (sid, r)" by (cases p)
  with assms Some
  have "speakSession k (s\<lparr>speaking := False, pendingSpeak := None\<rparr>) sid r = (s', ts, es)"
    by (simp add: finally_speak_def)
  from speakSession_free [OF _ this] show ?thesis by simp
qed

lemma run_append: "run w (xs @ ys) = run (run w xs) ys"
  by (induction xs arbitrary: w) simp_all

lemmas speak_eval =
  speaking_world_def speaking_inputs_def voice_file_def speakSession_def finally_speak_def
  on_messages_def getLatestAssistant_def catch_speak_def s1_ctx_def

lemma speaking_world_eval:
  "speaking (st speaking_world) \<and> pendingSpeak (st speaking_world) = None
   \<and> tasks speaking_world = [AwaitMessages (s1_ctx ''s1'' Idle)]
   \<and> env_apiKey speaking_world = Some ''key''
   \<and> enabled (config (st speaking_world)) \<and> disabledSessions (st speaking_world) = {}
   \<and> voiceId (config (st speaking_world)) = Some ''v''
   \<and> modelId (config (st speaking_world)) = None
   \<and> language (config (st speaking_world)) = None
   \<and> outputFormat (config (st speaking_world)) = ''mp3_44100_128''
   \<and> mode (config (st speaking_world)) = Continuous
   \<and> maxChars (config (st speaking_world)) = 3000
   \<and> lastSessionID (st speaking_world) = Some ''s1''
   \<and> lastSpokenAssistantMessage (st speaking_world) = Map.empty"
  by (simp add: speak_eval world_eval)

lemmas call_eval =
  resume_def on_messages_def getLatestAssistant_def finally_speak_def speakSession_def
  isEnabledForSession_def truthy_def audioFormatFor_def isMp3OutputFormat_def
  normalizeSlash_def lower_char_def s1_ctx_def catch_speak_def Let_def

section \<open>Single flight and the pending slot\<close>

text \<open>
  C1, as far as the code goes. In every world the plugin can reach, at most one call is
  inside the speak pipeline, so at most one speech request and at most one playback
  are in flight. A request that arrives while the plugin is speaking, for a session
  that is enabled then, is stored in the pending slot and starts nothing. While the
  slot holds a request whose session is still enabled, and the credential and the
  voice id are set, every promise the running pipeline settles either moves that
  pipeline on, the request still in the slot, or ends it and starts the pipeline of
  the stored request in the same uninterrupted run. \<open>speakSession\<close> checks the session
  before it looks at \<open>state.speaking\<close>, on arrival and again when the slot is drained:
  called for a session that is not enabled it changes nothing and starts nothing, so
  such a request is not stored, and a stored request whose session has been disabled
  meanwhile is dropped.
\<close>

theorem single_flight_pending_request:
  "pipeline_count (tasks (run (initial_world k0) ins)) \<le> 1
   \<and> tts_in_flight (tasks (run (initial_world k0) ins)) \<le> 1
   \<and> playback_in_flight (tasks (run (initial_world k0) ins)) \<le> 1
   \<and> (speaking s \<and> isEnabledForSession s sid
        \<longrightarrow> speakSession k s sid r = (s\<lparr>pendingSpeak := Some (sid, r)\<rparr>, [], []))
   \<and> (in_pipeline t \<and> resume k s t rsp = Some (s', ts, es) \<and> pendingSpeak s = Some (sid, r)
        \<and> isEnabledForSession s sid \<and> truthy k = Some key
        \<and> truthy (voiceId (config s)) = Some vid
      \<longrightarrow> (\<exists>t'. ts = [t'] \<and> in_pipeline t' \<and> remaining t' < remaining t
                \<and> pendingSpeak s' = Some (sid, r))
          \<or> (\<exists>c. ts = [AwaitMessages c] \<and> sessionID c = sid \<and> why c = r
                \<and> es = [FetchMessages sid] \<and> speaking s' \<and> pendingSpeak s' = None))
   \<and> (\<not> isEnabledForSession s sid \<longrightarrow> speakSession k s sid r = (s, [], []))"
proof (intro conjI impI)
  assume "\<not> isEnabledForSession s sid"
  then show "speakSession k s sid r = (s, [], [])"
    by (simp add: speakSession_def)
next
  let ?w = "run (initial_world k0) ins"
  from reachable_single_flight [of k0 ins] show c: "pipeline_count (tasks ?w) \<le> 1"
    by (simp split: if_splits)
  from c tts_in_flight_le [of "tasks ?w"] show "tts_in_flight (tasks ?w) \<le> 1" by simp
  from c playback_in_flight_le [of "tasks ?w"] show "playback_in_flight (tasks ?w) \<le> 1" by simp
next
  assume "speaking s \<and> isEnabledForSession s sid"
  then show "speakSession k s sid r = (s\<lparr>pendingSpeak := Some (sid, r)\<rparr>, [], [])"
    by (simp add: speakSession_def)
next
  assume a: "in_pipeline t \<and> resume k s t rsp = Some (s', ts, es) \<and> pendingSpeak s = Some (sid, r)
        \<and> isEnabledForSession s sid \<and> truthy k = Some key
        \<and> truthy (voiceId (config s)) = Some vid"
  let ?goal = "(\<exists>t'. ts = [t'] \<and> in_pipeline t' \<and> remaining t' < remaining t
                \<and> pendingSpeak s' = Some (sid, r))
          \<or> (\<exists>c. ts = [AwaitMessages c] \<and> sessionID c = sid \<and> why c = r
                \<and> es = [FetchMessages sid] \<and> speaking s' \<and> pendingSpeak s' = None)"
  have fin: ?goal
    if f: "(s', ts, es) = finally_speak k (s\<lparr>lastSpokenAssistantMessage := m0\<rparr>)" for m0
    using f a
    by (auto simp: finally_speak_def speakSession_def isEnabledForSession_def Let_def
        split: if_splits)
  from a have ip: "in_pipeline t" and rs: "resume k s t rsp = Some (s', ts, es)" by simp_all
  from resume_pipeline_cases [OF ip rs] show ?goal
  proof (elim disjE exE conjE)
    fix t'
    assume "ts = [t']" "in_pipeline t'" "remaining t' < remaining t" "s' = s"
    with a show ?goal by simp
  next
    assume "(s', ts, es) = finally_speak k s"
    then have "(s', ts, es) = finally_speak k (s\<lparr>lastSpokenAssistantMessage := lastSpokenAssistantMessage s\<rparr>)"
      by simp
    from fin [OF this] show ?goal .
  next
    fix c l err
    assume "(s', ts, es) = finally_speak k (s\<lparr>lastSpokenAssistantMessage :=
               (lastSpokenAssistantMessage s)(sessionID c \<mapsto> messageID l)\<rparr>)"
    from fin [OF this] show ?goal .
  qed
qed

theorem single_flight_pending_request_witness:
  "pipeline_count (tasks (run (initial_world (Some ''key''))
      (speaking_inputs @ [Deliver (SessionIdle (Some ''s2'')), Settle 0 (Messages None)]))) \<le> 1
   \<and> speakSession (Some ''key'') (st speaking_world) ''s2'' Idle
       = ((st speaking_world)\<lparr>pendingSpeak := Some (''s2'', Idle)\<rparr>, [], [])
   \<and> resume (Some ''key'') ((st speaking_world)\<lparr>pendingSpeak := Some (''s2'', Idle)\<rparr>)
         (AwaitMessages (s1_ctx ''s1'' Idle)) (Messages None)
       = Some ((st speaking_world)\<lparr>speaking := True, pendingSpeak := None\<rparr>,
               [AwaitMessages (s1_ctx ''s2'' Idle)], [FetchMessages ''s2''])"
proof -
  have h: "speaking (st speaking_world) \<and> isEnabledForSession (st speaking_world) ''s2''"
    using speaking_world_eval by (simp add: isEnabledForSession_def)
  have r: "resume (Some ''key'') ((st speaking_world)\<lparr>pendingSpeak := Some (''s2'', Idle)\<rparr>)
         (AwaitMessages (s1_ctx ''s1'' Idle)) (Messages None)
       = Some ((st speaking_world)\<lparr>speaking := True, pendingSpeak := None\<rparr>,
               [AwaitMessages (s1_ctx ''s2'' Idle)], [FetchMessages ''s2''])"
    using speaking_world_eval by (simp add: call_eval)
  from single_flight_pending_request
    [of "Some ''key''" "speaking_inputs @ [Deliver (SessionIdle (Some ''s2'')), Settle 0 (Messages None)]"
        "st speaking_world" "''s2''" "Some ''key''" Idle]
    h r
  show ?thesis by simp
qed

text \<open>
  The claim as written fails. A manual request for \<open>s1\<close> arrives while the pipeline for
  \<open>s1\<close> is in flight and is stored; \<open>voice.off\<close> then disables the session; when the
  pipeline ends, the slot is emptied and no pipeline runs for the stored request,
  which no later request had replaced.
\<close>

theorem pending_request_dropped_counterexample:
  "speaking (st (run (initial_world (Some ''key'')) dropped_inputs))
   \<and> pendingSpeak (st (run (initial_world (Some ''key'')) dropped_inputs)) = Some (''s1'', Manual)
   \<and> pendingSpeak (st (run (initial_world (Some ''key'')) (dropped_inputs @ [Settle 0 (Messages None)]))) = None
   \<and> \<not> speaking (st (run (initial_world (Some ''key'')) (dropped_inputs @ [Settle 0 (Messages None)])))
   \<and> pipeline_count (tasks (run (initial_world (Some ''key'')) (dropped_inputs @ [Settle 0 (Messages None)]))) = 0
   \<and> tts_calls (effects (run (initial_world (Some ''key'')) (dropped_inputs @ [Settle 0 (Messages None)]))) = 0"
  by (simp add: dropped_inputs_def speak_eval world_eval call_eval tts_calls_def)

text \<open>
  C2, as far as the code goes. In every world the plugin can reach, the pending slot is
  populated only while \<open>state.speaking\<close> is set, and exactly one call is inside the
  pipeline while it is set and none otherwise; the slot is a single optional value. A
  request that arrives while the plugin is speaking, for a session that is enabled
  then, replaces whatever the slot held, for the same or another session. A request
  for a session that is not enabled changes nothing, whatever the slot holds.
\<close>

theorem arbitrator_state_invariant:
  "(pendingSpeak (st (run (initial_world k0) ins)) = None \<or> speaking (st (run (initial_world k0) ins)))
   \<and> pipeline_count (tasks (run (initial_world k0) ins))
       = (if speaking (st (run (initial_world k0) ins)) then 1 else 0)
   \<and> (speaking s \<and> isEnabledForSession s sid
        \<longrightarrow> speakSession k s sid r = (s\<lparr>pendingSpeak := Some (sid, r)\<rparr>, [], []))
   \<and> (\<not> isEnabledForSession s sid \<longrightarrow> speakSession k s sid r = (s, [], []))"
  using reachable_single_flight [of k0 ins]
  by (simp add: speakSession_def)

theorem arbitrator_state_invariant_witness:
  "speaking (st (run (initial_world (Some ''key'')) queued_inputs))
   \<and> pipeline_count (tasks (run (initial_world (Some ''key'')) queued_inputs)) = 1
   \<and> pendingSpeak (st (run (initial_world (Some ''key'')) queued_inputs)) = Some (''s2'', Idle)
   \<and> pendingSpeak (fst (speakSession (Some ''key'') (st (run (initial_world (Some ''key'')) queued_inputs)) ''s1'' Manual))
       = Some (''s1'', Manual)"
proof -
  let ?w = "run (initial_world (Some ''key'')) queued_inputs"
  have e: "speaking (st ?w) \<and> pendingSpeak (st ?w) = Some (''s2'', Idle)
      \<and> isEnabledForSession (st ?w) ''s1''"
    by (simp add: queued_inputs_def speak_eval world_eval call_eval)
  from arbitrator_state_invariant [of "Some ''key''" queued_inputs "st ?w" "''s1''" "Some ''key''" Manual] e
  show ?thesis by simp
qed

text \<open>
  The claim as written fails: session \<open>s2\<close> is switched off, a request for \<open>s1\<close> is
  queued behind the running pipeline, and an idle request for \<open>s2\<close> arrives while the
  plugin is speaking. It does not replace the queued request.
\<close>

theorem pending_not_overwritten_counterexample:
  "speaking (st (run (initial_world (Some ''key'')) disabled_session_inputs))
   \<and> pendingSpeak (st (run (initial_world (Some ''key'')) disabled_session_inputs)) = Some (''s1'', Idle)
   \<and> pendingSpeak (st (run (initial_world (Some ''key''))
        (disabled_session_inputs @ [Deliver (SessionIdle (Some ''s2''))]))) = Some (''s1'', Idle)"
  by (simp add: disabled_session_inputs_def speak_eval world_eval call_eval)

section \<open>Every outcome releases the arbitrator\<close>

text \<open>
  C3. In every world the plugin can reach, exactly one call is suspended inside the
  pipeline while \<open>state.speaking\<close> is set and none otherwise, and the slot is populated
  only while it is set: a speaking plugin always has a promise to wait for. The
  continuation of a suspended call answers every settlement its promise can have
  (and no other). When a promise awaited inside the pipeline settles, whatever it
  settles with, either the pipeline moves on to a later await (fewer promises remain,
  and \<open>state.speaking\<close> and the slot are as before), or the pipeline ends: the slot is
  empty afterwards, and if it was empty before, the plugin is idle and nothing is
  started, and if it held a request, the outcome is that of \<open>speakSession\<close> called
  with that request, in the same uninterrupted run, in a state that is not speaking
  and has an empty slot. Since \<open>remaining\<close> is at most seven, a pipeline whose
  promises settle ends. A configuration error (credential or voice id missing) is
  found before \<open>state.speaking\<close> is set: the state is unchanged, the plugin stays
  idle, and in every world the plugin can reach the slot of an idle plugin is empty.
\<close>

theorem every_outcome_releases_arbiter:
  "(pendingSpeak (st (run (initial_world k0) ins)) = None \<or> speaking (st (run (initial_world k0) ins)))
   \<and> (in_pipeline t \<and> resume k s t r = Some (s', ts, es) \<longrightarrow>
      (\<exists>t'. ts = [t'] \<and> in_pipeline t' \<and> remaining t' < remaining t
            \<and> speaking s' = speaking s \<and> pendingSpeak s' = pendingSpeak s)
      \<or> (pendingSpeak s' = None
          \<and> (case pendingSpeak s of
                None \<Rightarrow> \<not> speaking s' \<and> ts = [] \<and> es = []
              | Some (sid, rr) \<Rightarrow>
                  \<exists>m. (s', ts, es)
                    = speakSession k (s\<lparr>lastSpokenAssistantMessage := m, speaking := False,
                                         pendingSpeak := None\<rparr>) sid rr)))
   \<and> (\<not> speaking s \<and> (truthy k = None \<or> truthy (voiceId (config s)) = None)
        \<and> speakSession k s sid0 r0 = (s1, ts1, es1)
      \<longrightarrow> s1 = s \<and> pipeline_count ts1 = 0)
   \<and> settles_with t r = (resume k s t r \<noteq> None)
   \<and> pipeline_count (tasks (run (initial_world k0) ins))
       = (if speaking (st (run (initial_world k0) ins)) then 1 else 0)
   \<and> remaining t \<le> 7"
proof (intro conjI impI)
  show "pendingSpeak (st (run (initial_world k0) ins)) = None \<or> speaking (st (run (initial_world k0) ins))"
    using reachable_single_flight [of k0 ins] by simp
next
  assume a: "in_pipeline t \<and> resume k s t r = Some (s', ts, es)"
  have fin: "pendingSpeak s' = None
          \<and> (case pendingSpeak s of
                None \<Rightarrow> \<not> speaking s' \<and> ts = [] \<and> es = []
              | Some (sid, rr) \<Rightarrow>
                  \<exists>m. (s', ts, es)
                    = speakSession k (s\<lparr>lastSpokenAssistantMessage := m, speaking := False,
                                         pendingSpeak := None\<rparr>) sid rr)"
    if f: "(s', ts, es) = finally_speak k (s\<lparr>lastSpokenAssistantMessage := m0\<rparr>)" for m0
  proof (cases "pendingSpeak s")
    case None
    with f show ?thesis by (simp add: finally_speak_def)
  next
    case (Some p)
    obtain sid rr where p: "p = (sid, rr)" by (cases p)
    from f Some p
    have e: "(s', ts, es) = speakSession k (s\<lparr>lastSpokenAssistantMessage := m0, speaking := False,
                                         pendingSpeak := None\<rparr>) sid rr"
      by (simp add: finally_speak_def)
    from finally_speak_consistent [OF f [symmetric]] have "pendingSpeak s' = None" by simp
    with e Some p show ?thesis by auto
  qed
  from a have ip: "in_pipeline t" and rs: "resume k s t r = Some (s', ts, es)" by simp_all
  let ?goal = "(\<exists>t'. ts = [t'] \<and> in_pipeline t' \<and> remaining t' < remaining t
            \<and> speaking s' = speaking s \<and> pendingSpeak s' = pendingSpeak s)
      \<or> (pendingSpeak s' = None
          \<and> (case pendingSpeak s of
                None \<Rightarrow> \<not> speaking s' \<and> ts = [] \<and> es = []
              | Some (sid, rr) \<Rightarrow>
                  \<exists>m. (s', ts, es)
                    = speakSession k (s\<lparr>lastSpokenAssistantMessage := m, speaking := False,
                                         pendingSpeak := None\<rparr>) sid rr))"
  from resume_pipeline_cases [OF ip rs] show ?goal
  proof (elim disjE exE conjE)
    fix t'
    assume "ts = [t']" "in_pipeline t'" "remaining t' < remaining t" "s' = s"
    then show ?goal by simp
  next
    assume "(s', ts, es) = finally_speak k s"
    then have "(s', ts, es) = finally_speak k (s\<lparr>lastSpokenAssistantMessage := lastSpokenAssistantMessage s\<rparr>)"
      by simp
    from fin [OF this] show ?goal by simp
  next
    fix c l err
    assume "(s', ts, es) = finally_speak k (s\<lparr>lastSpokenAssistantMessage :=
               (lastSpokenAssistantMessage s)(sessionID c \<mapsto> messageID l)\<rparr>)"
    from fin [OF this] show ?goal by simp
  qed
next
  assume "\<not> speaking s \<and> (truthy k = None \<or> truthy (voiceId (config s)) = None)
        \<and> speakSession k s sid0 r0 = (s1, ts1, es1)"
  then show "s1 = s" and "pipeline_count ts1 = 0"
    by (auto simp: speakSession_def split: if_splits option.splits)
next
  show "settles_with t r = (resume k s t r \<noteq> None)"
    by (cases t; cases r) (simp_all add: settles_with_def resume_def)
next
  show "pipeline_count (tasks (run (initial_world k0) ins))
       = (if speaking (st (run (initial_world k0) ins)) then 1 else 0)"
    using reachable_single_flight [of k0 ins] by simp
next
  show "remaining t \<le> 7"
    by (cases t) (simp_all add: remaining_def)
qed

theorem every_outcome_releases_arbiter_witness:
  "resume (Some ''key'') ((st speaking_world)\<lparr>pendingSpeak := Some (''s2'', Manual)\<rparr>)
      AwaitErrorToast ToastDone
     = Some ((st speaking_world)\<lparr>speaking := True, pendingSpeak := None\<rparr>,
             [AwaitMessages (s1_ctx ''s2'' Manual)], [FetchMessages ''s2''])
   \<and> resume (Some ''key'') (st speaking_world) (AwaitTts (s1_ctx ''s1'' Idle) hello) (TtsFailed ''quota'')
     = Some (st speaking_world, [AwaitErrorToast], [Toast ''Voice error: quota'' Error])
   \<and> remaining AwaitErrorToast < remaining (AwaitTts (s1_ctx ''s1'' Idle) hello)
   \<and> resume (Some ''key'') (st speaking_world) AwaitErrorToast ToastDone
     = Some ((st speaking_world)\<lparr>speaking := False, pendingSpeak := None\<rparr>, [], [])
   \<and> speakSession None ((st speaking_world)\<lparr>speaking := False\<rparr>) ''s1'' Idle
     = ((st speaking_world)\<lparr>speaking := False\<rparr>, [AwaitToastDone],
        [Toast ''Missing ELEVENLABS_API_KEY'' Error])
   \<and> resume (Some ''key'') (st speaking_world) (AwaitMessages (s1_ctx ''s1'' Idle))
        (MessagesFailed ''offline'')
     = Some (st speaking_world, [AwaitErrorToast], [Toast ''Voice error: offline'' Error])
   \<and> resume (Some ''key'') (st speaking_world) (AwaitWrite (s1_ctx ''s1'' Idle) hello)
        (WriteFailed ''disk full'')
     = Some (st speaking_world, [AwaitErrorToast], [Toast ''Voice error: disk full'' Error])
   \<and> resume (Some ''key'') (st speaking_world) (AwaitPlayer (s1_ctx ''s1'' Idle) hello)
        (PlayerThrew ''no shell'')
     = Some (st speaking_world, [AwaitErrorToast], [Toast ''Voice error: no shell'' Error])
   \<and> resume (Some ''key'') (st speaking_world) (AwaitPlayer (s1_ctx ''s1'' Idle) hello)
        (PlayerExit 1 ''no device'')
     = Some (st speaking_world, [AwaitDelete (s1_ctx ''s1'' Idle) hello 1 ''no device''], [DeleteFile])
   \<and> resume (Some ''key'') (st speaking_world) (AwaitDelete (s1_ctx ''s1'' Idle) hello 1 ''no device'')
        DeleteDone
     = Some (st speaking_world, [AwaitErrorToast], [Toast ''Voice error: no device'' Error])
   \<and> resume (Some ''key'') (st speaking_world) (AwaitMessages (s1_ctx ''s1'' Idle)) (Messages (Some []))
     = Some ((st speaking_world)\<lparr>speaking := False, pendingSpeak := None\<rparr>, [], [])
   \<and> resume (Some ''key'') (st speaking_world) (AwaitDelete (s1_ctx ''s1'' Idle) hello 0 []) DeleteDone
     = Some ((st speaking_world)\<lparr>lastSpokenAssistantMessage := [''s1'' \<mapsto> ''m1''],
               speaking := False, pendingSpeak := None\<rparr>, [], [])
   \<and> speaking (st (run speaking_world
        [Deliver (SessionIdle (Some ''s2'')), Settle 0 (MessagesFailed ''offline''), Settle 0 ToastDone]))
   \<and> pendingSpeak (st (run speaking_world
        [Deliver (SessionIdle (Some ''s2'')), Settle 0 (MessagesFailed ''offline''), Settle 0 ToastDone]))
      = None
   \<and> tasks (run speaking_world
        [Deliver (SessionIdle (Some ''s2'')), Settle 0 (MessagesFailed ''offline''), Settle 0 ToastDone])
      = [AwaitMessages (s1_ctx ''s2'' Idle)]"
proof -
  let ?q = "(st speaking_world)\<lparr>pendingSpeak := Some (''s2'', Manual)\<rparr>"
  let ?c = "s1_ctx ''s1'' Idle"
  have a: "resume (Some ''key'') ?q AwaitErrorToast ToastDone
     = Some ((st speaking_world)\<lparr>speaking := True, pendingSpeak := None\<rparr>,
             [AwaitMessages (s1_ctx ''s2'' Manual)], [FetchMessages ''s2''])"
    using speaking_world_eval by (simp add: call_eval)
  have b: "resume (Some ''key'') (st speaking_world) (AwaitTts ?c hello) (TtsFailed ''quota'')
     = Some (st speaking_world, [AwaitErrorToast], [Toast ''Voice error: quota'' Error])"
    by (simp add: call_eval)
  have c: "resume (Some ''key'') (st speaking_world) AwaitErrorToast ToastDone
     = Some ((st speaking_world)\<lparr>speaking := False, pendingSpeak := None\<rparr>, [], [])"
    using speaking_world_eval by (simp add: call_eval)
  have d: "speakSession None ((st speaking_world)\<lparr>speaking := False\<rparr>) ''s1'' Idle
     = ((st speaking_world)\<lparr>speaking := False\<rparr>, [AwaitToastDone],
        [Toast ''Missing ELEVENLABS_API_KEY'' Error])"
    using speaking_world_eval by (simp add: call_eval)
  from every_outcome_releases_arbiter
    [of "Some ''key''" speaking_inputs
        "AwaitTts (s1_ctx ''s1'' Idle) hello" "Some ''key''" "st speaking_world" "TtsFailed ''quota''"
        "st speaking_world" "[AwaitErrorToast]" "[Toast ''Voice error: quota'' Error]"] b
  have m: "remaining AwaitErrorToast < remaining (AwaitTts (s1_ctx ''s1'' Idle) hello)"
    using speaking_world_eval by simp
  have e1: "resume (Some ''key'') (st speaking_world) (AwaitMessages ?c) (MessagesFailed ''offline'')
     = Some (st speaking_world, [AwaitErrorToast], [Toast ''Voice error: offline'' Error])"
    by (simp add: call_eval)
  have e2: "resume (Some ''key'') (st speaking_world) (AwaitWrite ?c hello) (WriteFailed ''disk full'')
     = Some (st speaking_world, [AwaitErrorToast], [Toast ''Voice error: disk full'' Error])"
    by (simp add: call_eval)
  have e3: "resume (Some ''key'') (st speaking_world) (AwaitPlayer ?c hello) (PlayerThrew ''no shell'')
     = Some (st speaking_world, [AwaitErrorToast], [Toast ''Voice error: no shell'' Error])"
    by (simp add: call_eval)
  have e4: "resume (Some ''key'') (st speaking_world) (AwaitPlayer ?c hello) (PlayerExit 1 ''no device'')
     = Some (st speaking_world, [AwaitDelete ?c hello 1 ''no device''], [DeleteFile])"
    by (simp add: call_eval)
  have e5: "resume (Some ''key'') (st speaking_world) (AwaitDelete ?c hello 1 ''no device'') DeleteDone
     = Some (st speaking_world, [AwaitErrorToast], [Toast ''Voice error: no device'' Error])"
    by (simp add: call_eval on_deleted_def)
  have e6: "resume (Some ''key'') (st speaking_world) (AwaitMessages ?c) (Messages (Some []))
     = Some ((st speaking_world)\<lparr>speaking := False, pendingSpeak := None\<rparr>, [], [])"
    using speaking_world_eval by (simp add: call_eval)
  have e7: "resume (Some ''key'') (st speaking_world) (AwaitDelete ?c hello 0 []) DeleteDone
     = Some ((st speaking_world)\<lparr>lastSpokenAssistantMessage := [''s1'' \<mapsto> ''m1''],
               speaking := False, pendingSpeak := None\<rparr>, [], [])"
    using speaking_world_eval by (simp add: call_eval on_deleted_def hello_def)
  have r: "speaking (st (run speaking_world
        [Deliver (SessionIdle (Some ''s2'')), Settle 0 (MessagesFailed ''offline''), Settle 0 ToastDone]))
   \<and> pendingSpeak (st (run speaking_world
        [Deliver (SessionIdle (Some ''s2'')), Settle 0 (MessagesFailed ''offline''), Settle 0 ToastDone]))
      = None
   \<and> tasks (run speaking_world
        [Deliver (SessionIdle (Some ''s2'')), Settle 0 (MessagesFailed ''offline''), Settle 0 ToastDone])
      = [AwaitMessages (s1_ctx ''s2'' Idle)]"
    using speaking_world_eval by (simp add: step_def handle_event_def call_eval)
  from a b c d m e1 e2 e3 e4 e5 e6 e7 r show ?thesis by simp
qed

section \<open>The global flag\<close>

text \<open>
  Speech requests are made only by pipeline calls. While the global flag is off, no
  event and no settled promise outside the pipeline starts one.
\<close>

lemma handle_event_disabled:
  assumes "\<not> enabled (config s)" and "handle_event k s e = (s', ts, es)"
  shows "pipeline_count ts = 0 \<and> tts_calls es = 0"
  using assms
  by (cases e)
     (auto simp: handle_event_def handleCommand_def speakSession_def isEnabledForSession_def
        reloadConfig_def tts_calls_def Let_def split: option.splits if_splits)

lemma resume_other_no_tts:
  assumes "\<not> in_pipeline t" and "resume k s t r = Some (s', ts, es)"
  shows "tts_calls es = 0"
  using assms
  by (cases t; cases r)
     (auto simp: resume_def reload_settle_def reload_apply_def reload_warn_def reload_catch_def Let_def
        tts_calls_def split: sum.splits if_splits)

lemma tts_calls_append [simp]: "tts_calls (xs @ ys) = tts_calls xs + tts_calls ys"
  by (simp add: tts_calls_def)

lemma step_disabled:
  assumes "\<not> enabled (config (st w))" and "pipeline_count (tasks w) = 0"
  shows "pipeline_count (tasks (step w i)) = 0 \<and> tts_calls (effects (step w i)) = tts_calls (effects w)"
proof (cases i)
  case (Deliver e)
  obtain s' ts es where h: "handle_event (env_apiKey w) (st w) e = (s', ts, es)"
    by (cases "handle_event (env_apiKey w) (st w) e")
  from handle_event_disabled [OF assms(1) h] assms(2) Deliver h show ?thesis
    by (simp add: step_def)
next
  case (SetApiKey k)
  with assms show ?thesis by (simp add: step_def)
next
  case (Settle n r)
  show ?thesis
  proof (cases "n < length (tasks w)")
    case False
    with Settle assms show ?thesis by (simp add: step_def)
  next
    case True
    show ?thesis
    proof (cases "resume (env_apiKey w) (st w) (tasks w ! n) r")
      case None
      with Settle True assms show ?thesis by (simp add: step_def)
    next
      case (Some out)
      obtain s' ts es where out: "out = (s', ts, es)" by (cases out)
      from pipeline_count_split [OF True] assms(2)
      have q: "\<not> in_pipeline (tasks w ! n)"
        and rest: "pipeline_count (take n (tasks w)) = 0" "pipeline_count (drop (Suc n) (tasks w)) = 0"
        by (auto split: if_splits)
      from resume_other [OF q] resume_other_no_tts [OF q] Some out
      have "pipeline_count ts = 0" "tts_calls es = 0" by simp_all
      with rest Settle True Some out show ?thesis
        by (simp add: step_def)
    qed
  qed
qed

lemma run_disabled:
  "pipeline_count (tasks w) = 0 \<Longrightarrow> always_disabled w ins \<Longrightarrow>
     pipeline_count (tasks (run w ins)) = 0 \<and> tts_calls (effects (run w ins)) = tts_calls (effects w)"
proof (induction ins arbitrary: w)
  case Nil
  then show ?case by simp
next
  case (Cons i rest)
  from Cons.prems have d: "\<not> enabled (config (st w))" and r: "always_disabled (step w i) rest"
    by simp_all
  from step_disabled [OF d Cons.prems(1), of i] Cons.IH [OF _ r] show ?case
    by simp
qed

lemma globally_off_world_idle:
  "tasks globally_off_world = [] \<and> \<not> speaking (st globally_off_world)
   \<and> pendingSpeak (st globally_off_world) = None
   \<and> mode (config (st globally_off_world)) = Continuous
   \<and> effects globally_off_world
      = [LoadFiles, Toast ''Voice config loaded (project). mode=continuous enabled=off'' Success]"
  by (simp add: globally_off_world_def world_eval)

text \<open>
  C4. While the global \<open>enabled\<close> flag is off, \<open>speakSession\<close> returns at its first
  check, for every session, reason, mode and credential: the state is unchanged, no
  call is suspended and nothing is asked of the world. A request drained from the
  pending slot meets the same check: the \<open>finally\<close> block only clears
  \<open>state.speaking\<close> and the slot. So a run that starts with no pipeline in flight
  and keeps the flag off makes no speech request and starts no pipeline, whatever is
  delivered.
\<close>

theorem disabled_never_speaks:
  "(\<not> enabled (config s) \<longrightarrow> speakSession k s sid r = (s, [], []))
   \<and> (\<not> enabled (config s) \<and> pendingSpeak s = Some (sid, r)
        \<longrightarrow> finally_speak k s = (s\<lparr>speaking := False, pendingSpeak := None\<rparr>, [], []))
   \<and> (pipeline_count (tasks w) = 0 \<and> always_disabled w ins
        \<longrightarrow> tts_calls (effects (run w ins)) = tts_calls (effects w)
            \<and> pipeline_count (tasks (run w ins)) = 0)"
  using run_disabled [of w ins]
  by (auto simp: speakSession_def isEnabledForSession_def finally_speak_def)

theorem disabled_never_speaks_witness:
  "speakSession (Some ''key'') (st globally_off_world) ''s1'' Manual = (st globally_off_world, [], [])
   \<and> finally_speak (Some ''key'')
        ((st globally_off_world)\<lparr>speaking := True, pendingSpeak := Some (''s1'', Idle)\<rparr>)
       = ((st globally_off_world)\<lparr>speaking := False, pendingSpeak := None\<rparr>, [], [])
   \<and> tts_calls (effects (run globally_off_world
         [Deliver (SessionIdle (Some ''s1'')), Deliver (TuiCommandExecute (Some ''voice.speak''))])) = 0"
proof -
  let ?ins = "[Deliver (SessionIdle (Some ''s1'')), Deliver (TuiCommandExecute (Some ''voice.speak''))]"
  have off: "\<not> enabled (config (st globally_off_world))"
    using globally_off_world_state by simp
  have a: "always_disabled globally_off_world ?ins"
    using globally_off_world_state globally_off_world_idle
    by (simp add: step_def handle_event_def handleCommand_def speakSession_def
        isEnabledForSession_def truthy_def Let_def)
  have z: "tts_calls (effects globally_off_world) = 0"
    using globally_off_world_idle by (simp add: tts_calls_def)
  from disabled_never_speaks
    [of "st globally_off_world" "Some ''key''" "''s1''" Manual globally_off_world ?ins]
    disabled_never_speaks
    [of "(st globally_off_world)\<lparr>speaking := True, pendingSpeak := Some (''s1'', Idle)\<rparr>"
        "Some ''key''" "''s1''" Idle globally_off_world ?ins]
    off a z globally_off_world_idle
  show ?thesis by simp
qed

section \<open>The last spoken message\<close>

lemmas text_eval =
  joinTextParts_def sanitizeForTts_def trim_def trimEnd_def is_space_def
  match_link_def fence_def truncateForTts_def js_def hello_def hello_messages_def

lemma latest_hello: "getLatestAssistant (st speaking_world) hello_messages = Some hello"
  using speaking_world_eval by (simp add: getLatestAssistant_def text_eval)

text \<open>
  C10. \<open>lastSpokenAssistantMessage\<close> changes in one place of the speak procedure: when
  the player has exited with code 0 and the audio file is removed, the session's
  entry becomes the id of the message just played. Every other settled promise
  (no eligible message, idle duplicate, failed message fetch, failed speech request,
  failed write, missing player command, non-zero exit) leaves the map as it was, and
  so does \<open>speakSession\<close> itself, with its checks of the session, the credential and
  the voice id. An idle request whose latest message is not the stored one is
  therefore not suppressed: it goes on to the speech request (after the truncation
  notice, if the text was cut).
\<close>

theorem last_spoken_only_after_playback:
  "(resume k s t r = Some (s', ts, es) \<longrightarrow>
      lastSpokenAssistantMessage s'
        = (case t of
             AwaitDelete c l code err \<Rightarrow>
               if code = 0 then (lastSpokenAssistantMessage s)(sessionID c \<mapsto> messageID l)
               else lastSpokenAssistantMessage s
           | _ \<Rightarrow> lastSpokenAssistantMessage s))
   \<and> (speakSession k s sid rr = (s1, ts1, es1) \<longrightarrow>
        lastSpokenAssistantMessage s1 = lastSpokenAssistantMessage s)
   \<and> (why c0 = Idle \<and> getLatestAssistant s d = Some l0
        \<and> lastSpokenAssistantMessage s (sessionID c0) \<noteq> Some (messageID l0)
      \<longrightarrow> on_messages k s c0 d
          = (if truncated l0 then
               (s, [AwaitTruncToast c0 l0],
                [Toast (''Voice: truncated to '' @ String_of_int (maxChars (config s)) @ '' chars'') Warning])
             else start_tts s c0 l0))"
proof (intro conjI impI)
  assume a: "resume k s t r = Some (s', ts, es)"
  then show "lastSpokenAssistantMessage s'
        = (case t of
             AwaitDelete c l code err \<Rightarrow>
               if code = 0 then (lastSpokenAssistantMessage s)(sessionID c \<mapsto> messageID l)
               else lastSpokenAssistantMessage s
           | _ \<Rightarrow> lastSpokenAssistantMessage s)"
    by (cases t; cases r)
       (auto simp: resume_def on_messages_def on_deleted_def on_written_def catch_speak_def
          start_tts_def reload_settle_def reload_apply_def reload_warn_def reload_catch_def Let_def
          dest!: finally_speak_lastSpoken split: option.splits if_splits sum.splits)
next
  assume "speakSession k s sid rr = (s1, ts1, es1)"
  then show "lastSpokenAssistantMessage s1 = lastSpokenAssistantMessage s"
    by (auto simp: speakSession_def Let_def split: if_splits option.splits)
next
  assume "why c0 = Idle \<and> getLatestAssistant s d = Some l0
        \<and> lastSpokenAssistantMessage s (sessionID c0) \<noteq> Some (messageID l0)"
  then show "on_messages k s c0 d
          = (if truncated l0 then
               (s, [AwaitTruncToast c0 l0],
                [Toast (''Voice: truncated to '' @ String_of_int (maxChars (config s)) @ '' chars'') Warning])
             else start_tts s c0 l0)"
    by (simp add: on_messages_def)
qed

theorem last_spoken_only_after_playback_witness:
  "resume (Some ''key'') (st speaking_world) (AwaitDelete (s1_ctx ''s1'' Idle) hello 0 []) DeleteDone
     = Some ((st speaking_world)\<lparr>lastSpokenAssistantMessage := [''s1'' \<mapsto> ''m1''],
               speaking := False, pendingSpeak := None\<rparr>, [], [])
   \<and> resume (Some ''key'') (st speaking_world) (AwaitDelete (s1_ctx ''s1'' Idle) hello 1 []) DeleteDone
     = Some (st speaking_world, [AwaitErrorToast],
             [Toast ''Voice error: Player exited with code 1'' Error])
   \<and> on_messages (Some ''key'') (st speaking_world) (s1_ctx ''s1'' Idle) hello_messages
     = start_tts (st speaking_world) (s1_ctx ''s1'' Idle) hello"
proof -
  let ?s = "st speaking_world"
  let ?c = "s1_ctx ''s1'' Idle"
  let ?ok = "?s\<lparr>lastSpokenAssistantMessage := [''s1'' \<mapsto> ''m1''], speaking := False,
               pendingSpeak := None\<rparr>"
  have a: "resume (Some ''key'') ?s (AwaitDelete ?c hello 0 []) DeleteDone = Some (?ok, [], [])"
    using speaking_world_eval by (simp add: call_eval on_deleted_def hello_def)
  have b: "resume (Some ''key'') ?s (AwaitDelete ?c hello 1 []) DeleteDone
      = Some (?s, [AwaitErrorToast], [Toast ''Voice error: Player exited with code 1'' Error])"
    by (simp add: call_eval on_deleted_def String_of_int_def string_of_nat.simps digit_def)
  have i: "why ?c = Idle \<and> sessionID ?c = ''s1'' \<and> \<not> truncated hello \<and> messageID hello = ''m1''"
    by (simp add: s1_ctx_def hello_def)
  from last_spoken_only_after_playback
      [of "Some ''key''" ?s "AwaitDelete ?c hello 0 []" DeleteDone ?ok "[]" "[]"
          "''s1''" Idle ?s "[]" "[]" ?c hello_messages hello]
    a b i latest_hello speaking_world_eval
  show ?thesis by simp
qed

section \<open>Duplicate suppression\<close>

text \<open>Runs are followed through worlds written out field by field.\<close>

lemma player_calls_append [simp]: "player_calls (xs @ ys) = player_calls xs + player_calls ys"
  by (simp add: player_calls_def)

lemma tts_calls_simps [simp]:
  "tts_calls [] = 0"
  "tts_calls (e # es) = (case e of TtsCall p \<Rightarrow> 1 | _ \<Rightarrow> 0) + tts_calls es"
  by (simp_all add: tts_calls_def split: effect.splits)

lemma player_calls_simps [simp]:
  "player_calls [] = 0"
  "player_calls (e # es) = (case e of PlayerCall c a \<Rightarrow> 1 | _ \<Rightarrow> 0) + player_calls es"
  by (simp_all add: player_calls_def split: effect.splits)

lemma speak_ctx_fields [simp]:
  "sessionID (speak_ctx s sid r key vid) = sid" "why (speak_ctx s sid r key vid) = r"
  by (simp_all add: speak_ctx_def)

lemma getLatestAssistant_config:
  "config s' = config s \<Longrightarrow> getLatestAssistant s' d = getLatestAssistant s d"
  by (simp add: getLatestAssistant_def)

lemma speakSession_starts:
  assumes "isEnabledForSession s sid" and "\<not> speaking s"
    and "truthy k = Some key" and "truthy (voiceId (config s)) = Some vid"
  shows "speakSession k s sid r
     = (s\<lparr>speaking := True\<rparr>, [AwaitMessages (speak_ctx s sid r key vid)], [FetchMessages sid])"
  using assms by (simp add: speakSession_def speak_ctx_def Let_def)

lemma step_deliver:
  "step \<lparr>st = s, tasks = ts0, effects = es0, env_apiKey = k\<rparr> (Deliver e)
     = (case handle_event k s e of
          (s', ts, es) \<Rightarrow> \<lparr>st = s', tasks = ts0 @ ts, effects = es0 @ es, env_apiKey = k\<rparr>)"
  by (simp add: step_def split: prod.splits)

lemma step_settle_last:
  "step \<lparr>st = s, tasks = ts0 @ [t], effects = es0, env_apiKey = k\<rparr> (Settle (length ts0) r)
     = (case resume k s t r of
          None \<Rightarrow> \<lparr>st = s, tasks = ts0 @ [t], effects = es0, env_apiKey = k\<rparr>
        | Some (s', ts, es) \<Rightarrow> \<lparr>st = s', tasks = ts0 @ ts, effects = es0 @ es, env_apiKey = k\<rparr>)"
  by (simp add: step_def split: option.splits)

lemma pipeline_success:
  assumes "speaking s" and "pendingSpeak s = None"
    and "cmd (player (config s)) \<noteq> []"
    and "getLatestAssistant s msgs = Some latest"
    and "why c = Manual \<or> lastSpokenAssistantMessage s (sessionID c) \<noteq> Some (messageID latest)"
  shows "run \<lparr>st = s, tasks = ts0 @ [AwaitMessages c], effects = es0, env_apiKey = k\<rparr>
            (settle_success (length ts0) msgs latest bytes err)
      = \<lparr>st = s\<lparr>lastSpokenAssistantMessage :=
                   (lastSpokenAssistantMessage s)(sessionID c \<mapsto> messageID latest),
                 speaking := False, pendingSpeak := None\<rparr>,
         tasks = ts0,
         effects = es0
           @ (if truncated latest then
                [Toast (''Voice: truncated to '' @ String_of_int (maxChars (config s)) @ '' chars'') Warning]
              else [])
           @ [TtsCall (tts_params c latest), WriteFile bytes (ext (format c)),
              PlayerCall (cmd (player (config s))) (args (player (config s))), DeleteFile],
         env_apiKey = k\<rparr>"
proof -
  have fresh: "(why c = Idle \<and> lastSpokenAssistantMessage s (sessionID c) = Some (messageID latest))
      = False"
    using assms(5) by auto
  show ?thesis
  proof (cases "truncated latest")
    case True
    with assms(1-4) show ?thesis
      by (simp add: settle_success_def settle_toast_def step_settle_last resume_def on_messages_def
          fresh start_tts_def on_written_def on_deleted_def finally_speak_def tts_params_def)
  next
    case False
    with assms(1-4) show ?thesis
      by (simp add: settle_success_def settle_toast_def step_settle_last resume_def on_messages_def
          fresh start_tts_def on_written_def on_deleted_def finally_speak_def tts_params_def)
  qed
qed

lemma pipeline_duplicate:
  assumes "speaking s" and "pendingSpeak s = None"
    and "getLatestAssistant s msgs = Some latest"
    and "why c = Idle" and "lastSpokenAssistantMessage s (sessionID c) = Some (messageID latest)"
  shows "step \<lparr>st = s, tasks = ts0 @ [AwaitMessages c], effects = es0, env_apiKey = k\<rparr>
            (Settle (length ts0) (Messages msgs))
      = \<lparr>st = s\<lparr>speaking := False, pendingSpeak := None\<rparr>, tasks = ts0, effects = es0,
         env_apiKey = k\<rparr>"
  using assms
  by (simp add: step_settle_last resume_def on_messages_def finally_speak_def)

lemma idle_event_speaks:
  assumes "sid \<noteq> []" and "mode (config s) = Continuous"
  shows "handle_event k s (SessionIdle (Some sid)) = speakSession k (s\<lparr>lastSessionID := Some sid\<rparr>) sid Idle"
  using assms by (simp add: handle_event_def truthy_def Let_def)

lemma speak_command_speaks:
  assumes "lastSessionID s = Some sid" and "sid \<noteq> []"
  shows "handle_event k s (TuiCommandExecute (Some ''voice.speak'')) = speakSession k s sid Manual"
  using assms by (simp add: handle_event_def handleCommand_def truthy_def Let_def)

lemma first_idle_world:
  assumes "sid \<noteq> []" and "isEnabledForSession (st w) sid" and "\<not> speaking (st w)"
    and "pendingSpeak (st w) = None" and "mode (config (st w)) = Continuous"
    and "truthy (env_apiKey w) = Some key" and "truthy (voiceId (config (st w))) = Some vid"
    and "cmd (player (config (st w))) \<noteq> []"
    and "getLatestAssistant (st w) msgs = Some latest"
    and "lastSpokenAssistantMessage (st w) sid \<noteq> Some (messageID latest)"
  shows "\<exists>es. run w (first_idle w sid msgs latest bytes err)
      = \<lparr>st = (st w)\<lparr>lastSessionID := Some sid,
                      lastSpokenAssistantMessage := (lastSpokenAssistantMessage (st w))(sid \<mapsto> messageID latest),
                      speaking := False, pendingSpeak := None\<rparr>,
         tasks = tasks w, effects = effects w @ es, env_apiKey = env_apiKey w\<rparr>
      \<and> tts_calls es = 1 \<and> player_calls es = 1"
proof -
  let ?s = "(st w)\<lparr>lastSessionID := Some sid\<rparr>"
  let ?c = "speak_ctx ?s sid Idle key vid"
  have w: "w = \<lparr>st = st w, tasks = tasks w, effects = effects w, env_apiKey = env_apiKey w\<rparr>"
    by simp
  have e: "isEnabledForSession ?s sid"
    using assms(2) by (simp add: isEnabledForSession_iff)
  have start: "handle_event (env_apiKey w) (st w) (SessionIdle (Some sid))
      = (?s\<lparr>speaking := True\<rparr>, [AwaitMessages ?c], [FetchMessages sid])"
    using speakSession_starts [OF e _ assms(6), of vid Idle] assms(3,7)
    by (simp add: idle_event_speaks [OF assms(1,5)])
  have one: "step w (Deliver (SessionIdle (Some sid)))
      = \<lparr>st = ?s\<lparr>speaking := True\<rparr>, tasks = tasks w @ [AwaitMessages ?c],
         effects = effects w @ [FetchMessages sid], env_apiKey = env_apiKey w\<rparr>"
    by (subst w) (simp add: step_deliver start)
  have g: "getLatestAssistant (?s\<lparr>speaking := True\<rparr>) msgs = Some latest"
    using assms(9) by (simp add: getLatestAssistant_def)
  from pipeline_success [of "?s\<lparr>speaking := True\<rparr>" msgs latest ?c "tasks w"
      "effects w @ [FetchMessages sid]" "env_apiKey w" bytes err] g assms(4,8,10)
  have "run (step w (Deliver (SessionIdle (Some sid)))) (settle_success (length (tasks w)) msgs latest bytes err)
      = \<lparr>st = (st w)\<lparr>lastSessionID := Some sid,
                      lastSpokenAssistantMessage := (lastSpokenAssistantMessage (st w))(sid \<mapsto> messageID latest),
                      speaking := False, pendingSpeak := None\<rparr>,
         tasks = tasks w,
         effects = effects w @ (FetchMessages sid
           # (if truncated latest then
                [Toast (''Voice: truncated to '' @ String_of_int (maxChars (config (st w))) @ '' chars'') Warning]
              else [])
           @ [TtsCall (tts_params ?c latest), WriteFile bytes (ext (format ?c)),
              PlayerCall (cmd (player (config (st w)))) (args (player (config (st w)))), DeleteFile]),
         env_apiKey = env_apiKey w\<rparr>"
    by (simp add: one)
  then show ?thesis
    by (simp add: first_idle_def)
qed

lemma second_idle_world:
  assumes "sid \<noteq> []" and "isEnabledForSession (st w) sid" and "\<not> speaking (st w)"
    and "pendingSpeak (st w) = None" and "mode (config (st w)) = Continuous"
    and "truthy (env_apiKey w) = Some key" and "truthy (voiceId (config (st w))) = Some vid"
    and "getLatestAssistant (st w) msgs = Some latest"
    and "lastSpokenAssistantMessage (st w) sid = Some (messageID latest)"
    and "n = length (tasks w)"
  shows "run w [Deliver (SessionIdle (Some sid)), Settle n (Messages msgs)]
      = \<lparr>st = (st w)\<lparr>lastSessionID := Some sid, speaking := False, pendingSpeak := None\<rparr>,
         tasks = tasks w, effects = effects w @ [FetchMessages sid], env_apiKey = env_apiKey w\<rparr>"
proof -
  let ?s = "(st w)\<lparr>lastSessionID := Some sid\<rparr>"
  let ?c = "speak_ctx ?s sid Idle key vid"
  have w: "w = \<lparr>st = st w, tasks = tasks w, effects = effects w, env_apiKey = env_apiKey w\<rparr>"
    by simp
  have e: "isEnabledForSession ?s sid"
    using assms(2) by (simp add: isEnabledForSession_iff)
  have start: "handle_event (env_apiKey w) (st w) (SessionIdle (Some sid))
      = (?s\<lparr>speaking := True\<rparr>, [AwaitMessages ?c], [FetchMessages sid])"
    using speakSession_starts [OF e _ assms(6), of vid Idle] assms(3,7)
    by (simp add: idle_event_speaks [OF assms(1,5)])
  have one: "step w (Deliver (SessionIdle (Some sid)))
      = \<lparr>st = ?s\<lparr>speaking := True\<rparr>, tasks = tasks w @ [AwaitMessages ?c],
         effects = effects w @ [FetchMessages sid], env_apiKey = env_apiKey w\<rparr>"
    by (subst w) (simp add: step_deliver start)
  have g: "getLatestAssistant (?s\<lparr>speaking := True\<rparr>) msgs = Some latest"
    using assms(8) by (simp add: getLatestAssistant_def)
  from pipeline_duplicate [of "?s\<lparr>speaking := True\<rparr>" msgs latest ?c "tasks w"
      "effects w @ [FetchMessages sid]" "env_apiKey w"] g assms(4,9,10)
  show ?thesis by (simp add: one)
qed

lemma manual_world:
  assumes "sid \<noteq> []" and "isEnabledForSession (st w) sid" and "\<not> speaking (st w)"
    and "lastSessionID (st w) = Some sid"
    and "truthy (env_apiKey w) = Some key" and "truthy (voiceId (config (st w))) = Some vid"
    and "getLatestAssistant (st w) msgs = Some latest"
    and "n = length (tasks w)"
  shows "tts_calls (effects (run w (Deliver (TuiCommandExecute (Some ''voice.speak''))
            # Settle n (Messages msgs) # settle_toast n latest)))
      = tts_calls (effects w) + 1"
proof -
  let ?c = "speak_ctx (st w) sid Manual key vid"
  let ?s = "(st w)\<lparr>speaking := True\<rparr>"
  have w: "w = \<lparr>st = st w, tasks = tasks w, effects = effects w, env_apiKey = env_apiKey w\<rparr>"
    by simp
  have start: "handle_event (env_apiKey w) (st w) (TuiCommandExecute (Some ''voice.speak''))
      = (?s, [AwaitMessages ?c], [FetchMessages sid])"
    using speakSession_starts [OF assms(2,3,5,6), of Manual]
    by (simp add: speak_command_speaks [OF assms(4,1)])
  have one: "step w (Deliver (TuiCommandExecute (Some ''voice.speak'')))
      = \<lparr>st = ?s, tasks = tasks w @ [AwaitMessages ?c],
         effects = effects w @ [FetchMessages sid], env_apiKey = env_apiKey w\<rparr>"
    by (subst w) (simp add: step_deliver start)
  have g: "getLatestAssistant ?s msgs = Some latest"
    using assms(7) by (simp add: getLatestAssistant_def)
  show ?thesis
  proof (cases "truncated latest")
    case True
    with g assms(8) show ?thesis
      by (simp add: one settle_toast_def step_settle_last resume_def on_messages_def start_tts_def)
  next
    case False
    with g assms(8) show ?thesis
      by (simp add: one settle_toast_def step_settle_last resume_def on_messages_def start_tts_def)
  qed
qed

lemma speak_ctx_update [simp]:
  "speak_ctx (s\<lparr>speaking := b\<rparr>) = speak_ctx s"
  "speak_ctx (s\<lparr>pendingSpeak := p\<rparr>) = speak_ctx s"
  "speak_ctx (s\<lparr>lastSessionID := i\<rparr>) = speak_ctx s"
  "speak_ctx (s\<lparr>lastSpokenAssistantMessage := m\<rparr>) = speak_ctx s"
  by (simp_all add: speak_ctx_def fun_eq_iff cong: option.case_cong)

lemma finally_speak_starts:
  assumes "pendingSpeak s = Some (sid, r)" and "isEnabledForSession s sid"
    and "truthy k = Some key" and "truthy (voiceId (config s)) = Some vid"
  shows "finally_speak k s
     = (s\<lparr>speaking := True, pendingSpeak := None\<rparr>,
        [AwaitMessages (speak_ctx s sid r key vid)], [FetchMessages sid])"
proof -
  let ?s = "s\<lparr>speaking := False, pendingSpeak := None\<rparr>"
  have e: "isEnabledForSession ?s sid"
    using assms(2) by (simp add: isEnabledForSession_iff)
  have "finally_speak k s = speakSession k ?s sid r"
    using assms(1) by (simp add: finally_speak_def)
  also have "\<dots> = (?s\<lparr>speaking := True\<rparr>, [AwaitMessages (speak_ctx ?s sid r key vid)], [FetchMessages sid])"
    using speakSession_starts [OF e _ assms(3), of vid r] assms(4) by simp
  finally show ?thesis
    by simp
qed

lemma pipeline_success_pending:
  assumes "speaking s" and "pendingSpeak s = Some (sid, r)" and "isEnabledForSession s sid"
    and "truthy k = Some key" and "truthy (voiceId (config s)) = Some vid"
    and "cmd (player (config s)) \<noteq> []"
    and "getLatestAssistant s msgs = Some latest"
    and "why c = Manual \<or> lastSpokenAssistantMessage s (sessionID c) \<noteq> Some (messageID latest)"
  shows "run \<lparr>st = s, tasks = ts0 @ [AwaitMessages c], effects = es0, env_apiKey = k\<rparr>
            (settle_success (length ts0) msgs latest bytes err)
      = \<lparr>st = s\<lparr>lastSpokenAssistantMessage :=
                   (lastSpokenAssistantMessage s)(sessionID c \<mapsto> messageID latest),
                 speaking := True, pendingSpeak := None\<rparr>,
         tasks = ts0 @ [AwaitMessages (speak_ctx s sid r key vid)],
         effects = es0
           @ (if truncated latest then
                [Toast (''Voice: truncated to '' @ String_of_int (maxChars (config s)) @ '' chars'') Warning]
              else [])
           @ [TtsCall (tts_params c latest), WriteFile bytes (ext (format c)),
              PlayerCall (cmd (player (config s))) (args (player (config s))), DeleteFile,
              FetchMessages sid],
         env_apiKey = k\<rparr>"
proof -
  let ?m = "(lastSpokenAssistantMessage s)(sessionID c \<mapsto> messageID latest)"
  have fresh: "(why c = Idle \<and> lastSpokenAssistantMessage s (sessionID c) = Some (messageID latest))
      = False"
    using assms(8) by auto
  have e: "isEnabledForSession (s\<lparr>lastSpokenAssistantMessage := ?m\<rparr>) sid"
    using assms(3) by (simp add: isEnabledForSession_iff)
  have fin: "finally_speak k (s\<lparr>lastSpokenAssistantMessage := ?m\<rparr>)
      = (s\<lparr>lastSpokenAssistantMessage := ?m, speaking := True, pendingSpeak := None\<rparr>,
         [AwaitMessages (speak_ctx s sid r key vid)], [FetchMessages sid])"
    using finally_speak_starts [OF _ e assms(4), of r vid] assms(2,5)
    by simp
  show ?thesis
  proof (cases "truncated latest")
    case True
    with assms(1,6,7) show ?thesis
      by (simp add: settle_success_def settle_toast_def step_settle_last resume_def on_messages_def
          fresh start_tts_def on_written_def on_deleted_def fin tts_params_def)
  next
    case False
    with assms(1,6,7) show ?thesis
      by (simp add: settle_success_def settle_toast_def step_settle_last resume_def on_messages_def
          fresh start_tts_def on_written_def on_deleted_def fin tts_params_def)
  qed
qed

lemma queued_idle_world:
  assumes "sid \<noteq> []" and "isEnabledForSession (st w) sid" and "\<not> speaking (st w)"
    and "pendingSpeak (st w) = None" and "mode (config (st w)) = Continuous"
    and "truthy (env_apiKey w) = Some key" and "truthy (voiceId (config (st w))) = Some vid"
    and "cmd (player (config (st w))) \<noteq> []"
    and "getLatestAssistant (st w) msgs = Some latest"
    and "lastSpokenAssistantMessage (st w) sid \<noteq> Some (messageID latest)"
  shows "\<exists>es. run w (queued_idle w sid msgs latest bytes err)
      = \<lparr>st = (st w)\<lparr>lastSessionID := Some sid,
                      lastSpokenAssistantMessage := (lastSpokenAssistantMessage (st w))(sid \<mapsto> messageID latest),
                      speaking := False, pendingSpeak := None\<rparr>,
         tasks = tasks w, effects = effects w @ es, env_apiKey = env_apiKey w\<rparr>
      \<and> tts_calls es = 1 \<and> player_calls es = 1"
proof -
  let ?s = "(st w)\<lparr>lastSessionID := Some sid\<rparr>"
  let ?c = "speak_ctx ?s sid Idle key vid"
  let ?q = "?s\<lparr>speaking := True, pendingSpeak := Some (sid, Idle)\<rparr>"
  let ?m = "(lastSpokenAssistantMessage (st w))(sid \<mapsto> messageID latest)"
  have w: "w = \<lparr>st = st w, tasks = tasks w, effects = effects w, env_apiKey = env_apiKey w\<rparr>"
    by simp
  have e: "isEnabledForSession ?s sid"
    using assms(2) by (simp add: isEnabledForSession_iff)
  have start: "handle_event (env_apiKey w) (st w) (SessionIdle (Some sid))
      = (?s\<lparr>speaking := True\<rparr>, [AwaitMessages ?c], [FetchMessages sid])"
    using speakSession_starts [OF e _ assms(6), of vid Idle] assms(3,7)
    by (simp add: idle_event_speaks [OF assms(1,5)])
  have one: "step w (Deliver (SessionIdle (Some sid)))
      = \<lparr>st = ?s\<lparr>speaking := True\<rparr>, tasks = tasks w @ [AwaitMessages ?c],
         effects = effects w @ [FetchMessages sid], env_apiKey = env_apiKey w\<rparr>"
    by (subst w) (simp add: step_deliver start)
  have queue: "handle_event (env_apiKey w) (?s\<lparr>speaking := True\<rparr>) (SessionIdle (Some sid))
      = (?q, [], [])"
    using assms(1,2,5)
    by (simp add: handle_event_def truthy_def Let_def speakSession_def isEnabledForSession_iff)
  have two: "step (step w (Deliver (SessionIdle (Some sid)))) (Deliver (SessionIdle (Some sid)))
      = \<lparr>st = ?q, tasks = tasks w @ [AwaitMessages ?c],
         effects = effects w @ [FetchMessages sid], env_apiKey = env_apiKey w\<rparr>"
    by (simp add: one step_deliver queue)
  have eq: "isEnabledForSession ?q sid"
    using assms(2) by (simp add: isEnabledForSession_iff)
  have g: "getLatestAssistant ?q msgs = Some latest"
    using assms(9) by (simp add: getLatestAssistant_def)
  let ?c2 = "speak_ctx ?q sid Idle key vid"
  let ?s3 = "?q\<lparr>lastSpokenAssistantMessage := ?m, speaking := True, pendingSpeak := None\<rparr>"
  from pipeline_success_pending [of ?q sid Idle "env_apiKey w" key vid msgs latest ?c "tasks w"
      "effects w @ [FetchMessages sid]" bytes err, OF _ _ eq assms(6)] g assms(7,8,10)
  have three: "run (step (step w (Deliver (SessionIdle (Some sid)))) (Deliver (SessionIdle (Some sid))))
        (settle_success (length (tasks w)) msgs latest bytes err)
      = \<lparr>st = ?s3, tasks = tasks w @ [AwaitMessages ?c2],
         effects = effects w @ (FetchMessages sid
           # (if truncated latest then
                [Toast (''Voice: truncated to '' @ String_of_int (maxChars (config (st w))) @ '' chars'') Warning]
              else [])
           @ [TtsCall (tts_params ?c latest), WriteFile bytes (ext (format ?c)),
              PlayerCall (cmd (player (config (st w)))) (args (player (config (st w)))), DeleteFile,
              FetchMessages sid]),
         env_apiKey = env_apiKey w\<rparr>"
    by (simp add: two)
  have g3: "getLatestAssistant ?s3 msgs = Some latest"
    using assms(9) by (simp add: getLatestAssistant_def)
  let ?es = "effects w @ (FetchMessages sid
           # (if truncated latest then
                [Toast (''Voice: truncated to '' @ String_of_int (maxChars (config (st w))) @ '' chars'') Warning]
              else [])
           @ [TtsCall (tts_params ?c latest), WriteFile bytes (ext (format ?c)),
              PlayerCall (cmd (player (config (st w)))) (args (player (config (st w)))), DeleteFile,
              FetchMessages sid])"
  from pipeline_duplicate [of ?s3 msgs latest ?c2 "tasks w" ?es "env_apiKey w"] g3
  have four: "step \<lparr>st = ?s3, tasks = tasks w @ [AwaitMessages ?c2], effects = ?es,
        env_apiKey = env_apiKey w\<rparr> (Settle (length (tasks w)) (Messages msgs))
      = \<lparr>st = ?s3\<lparr>speaking := False, pendingSpeak := None\<rparr>, tasks = tasks w, effects = ?es,
         env_apiKey = env_apiKey w\<rparr>"
    by simp
  have "run w (queued_idle w sid msgs latest bytes err)
      = step (run (step (step w (Deliver (SessionIdle (Some sid)))) (Deliver (SessionIdle (Some sid))))
                (settle_success (length (tasks w)) msgs latest bytes err))
          (Settle (length (tasks w)) (Messages msgs))"
    by (simp add: queued_idle_def run_append)
  also have "\<dots> = \<lparr>st = ?s3\<lparr>speaking := False, pendingSpeak := None\<rparr>, tasks = tasks w,
         effects = ?es, env_apiKey = env_apiKey w\<rparr>"
    by (simp only: three four)
  finally show ?thesis
    by simp
qed

lemma ready_world_eval:
  "\<not> speaking (st ready_world) \<and> pendingSpeak (st ready_world) = None
   \<and> tasks ready_world = []
   \<and> effects ready_world
      = [LoadFiles, Toast ''Voice config loaded (project). mode=continuous enabled=on'' Success]
   \<and> env_apiKey ready_world = Some ''key''
   \<and> enabled (config (st ready_world)) \<and> disabledSessions (st ready_world) = {}
   \<and> voiceId (config (st ready_world)) = Some ''v''
   \<and> cmd (player (config (st ready_world))) = ''mpv''
   \<and> mode (config (st ready_world)) = Continuous
   \<and> maxChars (config (st ready_world)) = 3000
   \<and> lastSpokenAssistantMessage (st ready_world) = Map.empty"
  by (simp add: ready_world_def voice_file_def world_eval)

lemma ready_latest_hello: "getLatestAssistant (st ready_world) hello_messages = Some hello"
  using ready_world_eval by (simp add: getLatestAssistant_def text_eval)

text \<open>
  C5, as far as the code goes. Take a plugin that can speak for a session (enabled, in
  continuous mode, not speaking, credential, voice id and player command set) whose
  latest eligible message is not the one stored as last spoken. An idle request whose
  pipeline reaches successful playback makes one speech request and stores the
  message id; a second idle request for the session, with the same message list,
  aborts at the comparison with the stored id: one speech request and one playback
  in all, and the plugin is idle again. This holds when the second request arrives
  after the first pipeline has ended, and when it arrives while that pipeline is in
  flight and is drained from the pending slot. A manual request after the first
  makes a second speech request although the latest id is the stored one. The stored
  id is written only after a successful playback, so the suppression holds only then.
\<close>

theorem idle_duplicate_suppressed_manual_repeats:
  assumes "sid \<noteq> []" and "isEnabledForSession (st w) sid" and "\<not> speaking (st w)"
    and "pendingSpeak (st w) = None" and "mode (config (st w)) = Continuous"
    and "truthy (env_apiKey w) \<noteq> None" and "truthy (voiceId (config (st w))) \<noteq> None"
    and "cmd (player (config (st w))) \<noteq> []"
    and "getLatestAssistant (st w) msgs = Some latest"
    and "lastSpokenAssistantMessage (st w) sid \<noteq> Some (messageID latest)"
  shows "tts_calls (effects (run w (first_idle w sid msgs latest bytes err))) = tts_calls (effects w) + 1
    \<and> lastSpokenAssistantMessage (st (run w (first_idle w sid msgs latest bytes err))) sid
        = Some (messageID latest)
    \<and> tts_calls (effects (run w (first_idle w sid msgs latest bytes err @ second_idle w sid msgs)))
        = tts_calls (effects w) + 1
    \<and> player_calls (effects (run w (first_idle w sid msgs latest bytes err @ second_idle w sid msgs)))
        = player_calls (effects w) + 1
    \<and> \<not> speaking (st (run w (first_idle w sid msgs latest bytes err @ second_idle w sid msgs)))
    \<and> tasks (run w (first_idle w sid msgs latest bytes err @ second_idle w sid msgs)) = tasks w
    \<and> tts_calls (effects (run w (first_idle w sid msgs latest bytes err @ then_manual w msgs latest)))
        = tts_calls (effects w) + 2
    \<and> tts_calls (effects (run w (queued_idle w sid msgs latest bytes err))) = tts_calls (effects w) + 1
    \<and> player_calls (effects (run w (queued_idle w sid msgs latest bytes err)))
        = player_calls (effects w) + 1
    \<and> \<not> speaking (st (run w (queued_idle w sid msgs latest bytes err)))"
proof -
  from assms(6,7) obtain key vid where k: "truthy (env_apiKey w) = Some key"
    and v: "truthy (voiceId (config (st w))) = Some vid" by auto
  let ?s1 = "(st w)\<lparr>lastSessionID := Some sid,
                      lastSpokenAssistantMessage := (lastSpokenAssistantMessage (st w))(sid \<mapsto> messageID latest),
                      speaking := False, pendingSpeak := None\<rparr>"
  from first_idle_world [OF assms(1-5) k v assms(8-10), of bytes err]
  obtain es where w1: "run w (first_idle w sid msgs latest bytes err)
      = \<lparr>st = ?s1, tasks = tasks w, effects = effects w @ es, env_apiKey = env_apiKey w\<rparr>"
    and es: "tts_calls es = 1" "player_calls es = 1"
    by blast
  let ?w1 = "\<lparr>st = ?s1, tasks = tasks w, effects = effects w @ es, env_apiKey = env_apiKey w\<rparr>"
  have e1: "isEnabledForSession (st ?w1) sid"
    using assms(2) by (simp add: isEnabledForSession_iff)
  have g1: "getLatestAssistant (st ?w1) msgs = Some latest"
    using assms(9) by (simp add: getLatestAssistant_def)
  have two: "run ?w1 (second_idle w sid msgs)
      = \<lparr>st = ?s1\<lparr>lastSessionID := Some sid, speaking := False, pendingSpeak := None\<rparr>,
         tasks = tasks w, effects = (effects w @ es) @ [FetchMessages sid],
         env_apiKey = env_apiKey w\<rparr>"
    using second_idle_world [of sid ?w1 key vid msgs latest "length (tasks w)", OF assms(1) e1]
      assms(5) k v g1
    by (simp add: second_idle_def)
  have three: "tts_calls (effects (run ?w1 (then_manual w msgs latest)))
      = tts_calls (effects ?w1) + 1"
    using manual_world [of sid ?w1 key vid msgs latest "length (tasks w)", OF assms(1) e1] k v g1
    by (simp add: then_manual_def)
  from queued_idle_world [OF assms(1-5) k v assms(8-10), of bytes err]
  obtain qs where q: "run w (queued_idle w sid msgs latest bytes err)
      = \<lparr>st = ?s1, tasks = tasks w, effects = effects w @ qs, env_apiKey = env_apiKey w\<rparr>"
    and qs: "tts_calls qs = 1" "player_calls qs = 1"
    by blast
  show ?thesis
    using es two three qs by (simp add: run_append w1 q)
qed

theorem idle_duplicate_suppressed_manual_repeats_witness:
  "tts_calls (effects (run ready_world
      (first_idle ready_world ''s1'' hello_messages hello [1, 2, 3] []
        @ second_idle ready_world ''s1'' hello_messages))) = 1
   \<and> player_calls (effects (run ready_world
      (first_idle ready_world ''s1'' hello_messages hello [1, 2, 3] []
        @ second_idle ready_world ''s1'' hello_messages))) = 1
   \<and> tts_calls (effects (run ready_world
      (first_idle ready_world ''s1'' hello_messages hello [1, 2, 3] []
        @ then_manual ready_world hello_messages hello))) = 2
   \<and> tts_calls (effects (run ready_world
      (queued_idle ready_world ''s1'' hello_messages hello [1, 2, 3] []))) = 1"
proof -
  have n: "''s1'' \<noteq> []" by simp
  have e: "isEnabledForSession (st ready_world) ''s1''"
    using ready_world_eval by (simp add: isEnabledForSession_iff)
  have z: "tts_calls (effects ready_world) = 0 \<and> player_calls (effects ready_world) = 0"
    using ready_world_eval by simp
  from idle_duplicate_suppressed_manual_repeats
    [OF n e _ _ _ _ _ _ ready_latest_hello, of "[1, 2, 3]" "[]"]
    ready_world_eval z
  show ?thesis by (simp add: truthy_def hello_def)
qed

text \<open>
  The claim as written fails when the first attempt does not reach playback: the speech
  request of the first idle request fails, nothing is stored, and the second idle
  request, with no new message in between, makes a second speech request.
\<close>

theorem failed_idle_repeats_counterexample:
  "tts_calls (effects (run ready_world
      [Deliver (SessionIdle (Some ''s1'')), Settle 0 (Messages hello_messages),
       Settle 0 (TtsFailed ''quota''), Settle 0 ToastDone,
       Deliver (SessionIdle (Some ''s1'')), Settle 0 (Messages hello_messages)])) = 2"
  by (simp add: ready_world_def voice_file_def world_eval call_eval text_eval start_tts_def)

section \<open>Sanitisation\<close>

subsection \<open>What each replacement does\<close>

lemma find_fence_close_Cons:
  "find_fence_close (x # xs)
     = (if take 3 (x # xs) = fence then Some (drop 3 (x # xs)) else find_fence_close xs)"
proof (cases xs)
  case Nil
  then show ?thesis by (simp add: fence_def)
next
  case (Cons y ys)
  then show ?thesis by (cases ys) (auto simp: fence_def)
qed

lemma has_fence_Cons:
  "has_fence (x # xs) = (take 3 (x # xs) = fence \<or> has_fence xs)"
  by (simp add: has_fence_def find_fence_close_Cons del: find_fence_close.simps)

lemma take3_tail:
  "take 3 (x # b @ 96 # 96 # rest) = take 3 (x # b @ [96, 96])"
  by (cases b; cases "tl b") auto

lemma no_fence_start:
  assumes "\<not> has_fence ((x # b) @ [96, 96])"
  shows "take 3 (x # b @ fence @ rest) \<noteq> fence"
  using assms take3_tail [of x b "96 # rest"]
  by (simp add: has_fence_Cons fence_def)

lemma no_fence_later:
  assumes "\<not> has_fence ((x # b) @ [96, 96])"
  shows "\<not> has_fence (b @ [96, 96])"
  using assms by (simp add: has_fence_Cons)

lemma find_fence_close_first:
  "\<not> has_fence (body @ [96, 96]) \<Longrightarrow> find_fence_close (body @ fence @ post) = Some post"
proof (induction body)
  case Nil
  then show ?case by (simp add: fence_def)
next
  case (Cons x body)
  from no_fence_start [OF Cons.prems, of post] Cons.IH [OF no_fence_later [OF Cons.prems]]
  show ?case
    by (simp add: find_fence_close_Cons del: find_fence_close.simps)
qed

lemma strip_fences_plain:
  "\<not> has_fence (pre @ [96, 96]) \<Longrightarrow> strip_fences (pre @ fence @ rest) = pre @ strip_fences (fence @ rest)"
proof (induction pre)
  case Nil
  then show ?case by simp
next
  case (Cons x pre)
  from no_fence_start [OF Cons.prems, of rest] Cons.IH [OF no_fence_later [OF Cons.prems]]
  show ?case
    by simp
qed

lemma strip_fences_block:
  "\<not> has_fence (body @ [96, 96]) \<Longrightarrow> strip_fences (fence @ body @ fence @ post) = 32 # strip_fences post"
  using find_fence_close_first [of body post]
  by (simp add: fence_def)

lemma no_backquote_no_fence: "96 \<notin> set t \<Longrightarrow> \<not> has_fence (t @ [96, 96])"
proof (induction t)
  case Nil
  then show ?case by (simp add: has_fence_def)
next
  case (Cons x t)
  then show ?case by (simp add: has_fence_Cons fence_def)
qed

lemma strip_inline_plain:
  "96 \<notin> set pre \<Longrightarrow> strip_inline (pre @ rest) = pre @ strip_inline rest"
  by (induction pre) auto

lemma dropWhile_until:
  "y \<notin> set xs \<Longrightarrow> dropWhile (\<lambda>c. c \<noteq> y) (xs @ y # ys) = y # ys"
  by (induction xs) auto

lemma takeWhile_until:
  "y \<notin> set xs \<Longrightarrow> takeWhile (\<lambda>c. c \<noteq> y) (xs @ y # ys) = xs"
  by (induction xs) auto

lemma strip_inline_span:
  "96 \<notin> set body \<Longrightarrow> strip_inline (96 # body @ 96 # post) = 32 # strip_inline post"
  by (simp add: dropWhile_until)

lemma match_link_other: "x \<noteq> 91 \<Longrightarrow> match_link (x # xs) = None"
  by (simp add: match_link_def)

lemma rewrite_links_plain:
  "91 \<notin> set pre \<Longrightarrow> rewrite_links (pre @ rest) = pre @ rewrite_links rest"
  by (induction pre) (auto simp: match_link_other)

lemma match_link_found:
  assumes "label \<noteq> []" and "93 \<notin> set label" and "url \<noteq> []" and "41 \<notin> set url"
  shows "match_link (91 # label @ 93 # 40 # url @ 41 # post) = Some (label, post)"
  using assms by (simp add: match_link_def takeWhile_until dropWhile_until)

lemma rewrite_links_link:
  assumes "label \<noteq> []" and "93 \<notin> set label" and "url \<noteq> []" and "41 \<notin> set url"
  shows "rewrite_links (91 # label @ 93 # 40 # url @ 41 # post) = label @ rewrite_links post"
  using match_link_found [OF assms, of post] by simp

subsection \<open>Whitespace normal form\<close>

lemma collapse_ws_head:
  "xs \<noteq> [] \<Longrightarrow> \<not> is_space (hd xs) \<Longrightarrow> collapse_ws xs \<noteq> [] \<and> hd (collapse_ws xs) = hd xs"
  by (cases xs) auto

lemma single_spaced_Cons:
  "single_spaced (x # xs)
     = ((if is_space x then x = 32 \<and> (xs = [] \<or> \<not> is_space (hd xs)) else True) \<and> single_spaced xs)"
  by (cases xs) auto

lemma collapse_ws_single_spaced: "single_spaced (collapse_ws t)"
proof (induction t rule: collapse_ws.induct)
  case 1
  then show ?case by simp
next
  case (2 x xs)
  show ?case
  proof (cases "is_space x")
    case True
    let ?r = "dropWhile is_space xs"
    have "collapse_ws ?r = [] \<or> \<not> is_space (hd (collapse_ws ?r))"
    proof (cases "?r = []")
      case True
      then show ?thesis by (metis collapse_ws.simps(1))
    next
      case False
      then have "\<not> is_space (hd ?r)" by (rule hd_dropWhile)
      with False collapse_ws_head [of ?r] show ?thesis by simp
    qed
    moreover have "is_space 32" by (simp add: is_space_def)
    ultimately show ?thesis
      using True 2 by (simp add: single_spaced_Cons del: single_spaced.simps)
  next
    case False
    with 2 show ?thesis
      by (simp add: single_spaced_Cons del: single_spaced.simps)
  qed
qed

lemma collapse_ws_keeps_text:
  "filter (\<lambda>c. \<not> is_space c) (collapse_ws t) = filter (\<lambda>c. \<not> is_space c) t"
proof (induction t rule: collapse_ws.induct)
  case 1
  then show ?case by simp
next
  case (2 x xs)
  have d: "filter (\<lambda>c. \<not> is_space c) (dropWhile is_space xs) = filter (\<lambda>c. \<not> is_space c) xs"
    by (induction xs) auto
  have "is_space 32" by (simp add: is_space_def)
  with 2 d show ?case by auto
qed

lemma single_spaced_suffix: "single_spaced (xs @ ys) \<Longrightarrow> single_spaced ys"
  by (induction xs) (auto simp: single_spaced_Cons simp del: single_spaced.simps)

lemma single_spaced_prefix: "single_spaced (xs @ ys) \<Longrightarrow> single_spaced xs"
proof (induction xs)
  case Nil
  then show ?case by simp
next
  case (Cons x xs)
  then show ?case
    by (cases xs) (auto simp: single_spaced_Cons simp del: single_spaced.simps)
qed

lemma trimEnd_prefix: "trimEnd t @ rev (takeWhile is_space (rev t)) = t"
proof -
  have "rev (takeWhile is_space (rev t) @ dropWhile is_space (rev t)) = t"
    by simp
  then show ?thesis by (simp add: trimEnd_def del: takeWhile_dropWhile_id)
qed

lemma trim_single_spaced:
  assumes "single_spaced t"
  shows "single_spaced (trim t)"
proof -
  have "takeWhile is_space t @ dropWhile is_space t = t" by simp
  with assms have "single_spaced (dropWhile is_space t)"
    by (metis single_spaced_suffix)
  then have "single_spaced (trimEnd (dropWhile is_space t)
      @ rev (takeWhile is_space (rev (dropWhile is_space t))))"
    by (simp add: trimEnd_prefix)
  then show ?thesis
    unfolding trim_def by (rule single_spaced_prefix)
qed

lemma trim_trimmed: "trimmed (trim t)"
proof (cases "trim t = []")
  case True
  then show ?thesis by (simp add: trimmed_def)
next
  case False
  let ?u = "dropWhile is_space t"
  let ?v = "dropWhile is_space (rev ?u)"
  from False have v: "?v \<noteq> []" by (simp add: trim_def trimEnd_def)
  then have "\<not> is_space (hd ?v)" by (rule hd_dropWhile)
  with v have l: "\<not> is_space (last (trim t))"
    by (simp add: trim_def trimEnd_def last_rev)
  have "trimEnd [] = []" by (simp add: trimEnd_def)
  with False have u: "?u \<noteq> []" by (metis trim_def)
  then have hu: "\<not> is_space (hd ?u)" by (rule hd_dropWhile)
  have "trim t @ rev (takeWhile is_space (rev ?u)) = ?u"
    unfolding trim_def by (rule trimEnd_prefix)
  with False have "hd ?u = hd (trim t)"
    by (metis hd_append2)
  with hu l False show ?thesis by (simp add: trimmed_def)
qed

subsection \<open>Texts without a match, and the first match of a text\<close>

lemma has_fence_iff: "has_fence t = (\<exists>a c. t = a @ fence @ c)"
proof (induction t)
  case Nil
  then show ?case by (simp add: has_fence_def fence_def)
next
  case (Cons x t)
  show ?case
  proof
    assume "has_fence (x # t)"
    then consider "take 3 (x # t) = fence" | "has_fence t" by (auto simp: has_fence_Cons)
    then show "\<exists>a c. x # t = a @ fence @ c"
    proof cases
      case 1
      then have "x # t = [] @ fence @ drop 3 (x # t)"
        by (metis append_Nil append_take_drop_id)
      then show ?thesis by blast
    next
      case 2
      with Cons obtain a c where "t = a @ fence @ c" by auto
      then have "x # t = (x # a) @ fence @ c" by simp
      then show ?thesis by blast
    qed
  next
    assume "\<exists>a c. x # t = a @ fence @ c"
    then obtain a c where e: "x # t = a @ fence @ c" by auto
    show "has_fence (x # t)"
    proof (cases a)
      case Nil
      with e have "take 3 (x # t) = fence" by (simp add: fence_def)
      then show ?thesis by (simp add: has_fence_Cons)
    next
      case (Cons y a')
      with e have "t = a' @ fence @ c" by simp
      with Cons.IH have "has_fence t" by auto
      then show ?thesis by (simp add: has_fence_Cons)
    qed
  qed
qed

lemma strip_fences_none:
  "\<not> (\<exists>a b c. t = a @ fence @ b @ fence @ c) \<Longrightarrow> strip_fences t = t"
proof (induction t rule: strip_fences.induct)
  case 1
  then show ?case by simp
next
  case (2 x xs)
  have tl: "\<not> (\<exists>a b c. xs = a @ fence @ b @ fence @ c)"
  proof
    assume "\<exists>a b c. xs = a @ fence @ b @ fence @ c"
    then obtain a b c where "xs = a @ fence @ b @ fence @ c" by auto
    then have "x # xs = (x # a) @ fence @ b @ fence @ c" by simp
    with "2.prems" show False by blast
  qed
  show ?case
  proof (cases "take 3 (x # xs) = fence")
    case False
    from "2.IH"(3) [OF False tl] have "strip_fences xs = xs" .
    with False show ?thesis by simp
  next
    case True
    define r where "r = drop 3 (x # xs)"
    from True have e: "x # xs = fence @ r"
      unfolding r_def by (metis append_take_drop_id)
    have "find_fence_close r = None"
    proof (rule ccontr)
      assume "find_fence_close r \<noteq> None"
      then have "has_fence r" by (simp add: has_fence_def)
      then obtain b c where "r = b @ fence @ c" by (auto simp: has_fence_iff)
      with e have "x # xs = [] @ fence @ b @ fence @ c" by simp
      with "2.prems" show False by blast
    qed
    then have n: "find_fence_close (drop 3 (x # xs)) = None"
      unfolding r_def .
    from "2.IH"(1) [OF True n tl] have "strip_fences xs = xs" .
    with True n show ?thesis by simp
  qed
qed


lemma strip_inline_none:
  "\<not> (\<exists>a b c. t = a @ 96 # b @ 96 # c) \<Longrightarrow> strip_inline t = t"
proof (induction t)
  case Nil
  then show ?case by simp
next
  case (Cons x t)
  have tl: "\<not> (\<exists>a b c. t = a @ 96 # b @ 96 # c)"
  proof
    assume "\<exists>a b c. t = a @ 96 # b @ 96 # c"
    then obtain a b c where "t = a @ 96 # b @ 96 # c" by auto
    then have "x # t = (x # a) @ 96 # b @ 96 # c" by simp
    with Cons.prems show False by blast
  qed
  from Cons.IH [OF tl] have ih: "strip_inline t = t" .
  show ?case
  proof (cases "x = 96")
    case False
    with ih show ?thesis by simp
  next
    case True
    have "dropWhile (\<lambda>c. c \<noteq> 96) t = []"
    proof (rule ccontr)
      assume n: "dropWhile (\<lambda>c. c \<noteq> 96) t \<noteq> []"
      then have "hd (dropWhile (\<lambda>c. c \<noteq> 96) t) = 96"
        using hd_dropWhile [of "\<lambda>c. c \<noteq> 96" t] by simp
      with n have "dropWhile (\<lambda>c. c \<noteq> 96) t = 96 # tl (dropWhile (\<lambda>c. c \<noteq> 96) t)"
        by (metis list.collapse)
      then have "t = takeWhile (\<lambda>c. c \<noteq> 96) t @ 96 # tl (dropWhile (\<lambda>c. c \<noteq> 96) t)"
        by (metis takeWhile_dropWhile_id)
      with True have "x # t = [] @ 96 # takeWhile (\<lambda>c. c \<noteq> 96) t @ 96 # tl (dropWhile (\<lambda>c. c \<noteq> 96) t)"
        by simp
      with Cons.prems show False by blast
    qed
    with True ih show ?thesis by (simp del: dropWhile_eq_Nil_conv)
  qed
qed

lemma rewrite_links_skip:
  "no_link_in pre rest \<Longrightarrow> rewrite_links (pre @ rest) = pre @ rewrite_links rest"
  by (induction pre) auto

lemma match_link_shape:
  assumes "match_link t = Some (label, post)"
  shows "\<exists>url. t = 91 # label @ 93 # 40 # url @ 41 # post
    \<and> label \<noteq> [] \<and> 93 \<notin> set label \<and> url \<noteq> [] \<and> 41 \<notin> set url"
proof -
  from assms obtain r where t: "t = 91 # r"
    by (cases t) (auto simp: match_link_def split: if_splits)
  from assms t have l: "label = takeWhile (\<lambda>c. c \<noteq> 93) r" and ln: "label \<noteq> []"
    by (auto simp: match_link_def Let_def split: if_splits list.splits)
  from assms t obtain a r2 where d1: "dropWhile (\<lambda>c. c \<noteq> 93) r = a # 40 # r2"
    by (auto simp: match_link_def Let_def split: if_splits list.splits)
  from assms t d1 obtain p where d2: "dropWhile (\<lambda>c. c \<noteq> 41) r2 = p # post"
    and un: "takeWhile (\<lambda>c. c \<noteq> 41) r2 \<noteq> []"
    by (auto simp: match_link_def Let_def split: if_splits list.splits)
  from d1 have a: "a = 93"
    using hd_dropWhile [of "\<lambda>c. c \<noteq> 93" r] by simp
  from d2 have p: "p = 41"
    using hd_dropWhile [of "\<lambda>c. c \<noteq> 41" r2] by simp
  have "r = takeWhile (\<lambda>c. c \<noteq> 93) r @ dropWhile (\<lambda>c. c \<noteq> 93) r" by simp
  with l d1 a have r: "r = label @ 93 # 40 # r2" by simp
  have "r2 = takeWhile (\<lambda>c. c \<noteq> 41) r2 @ dropWhile (\<lambda>c. c \<noteq> 41) r2" by simp
  with d2 p have r2: "r2 = takeWhile (\<lambda>c. c \<noteq> 41) r2 @ 41 # post" by simp
  have n1: "93 \<notin> set label"
    unfolding l using set_takeWhileD by fastforce
  have n2: "41 \<notin> set (takeWhile (\<lambda>c. c \<noteq> 41) r2)"
    using set_takeWhileD by fastforce
  from t r r2 have "t = 91 # label @ 93 # 40 # takeWhile (\<lambda>c. c \<noteq> 41) r2 @ 41 # post"
    by simp
  with ln n1 un n2 show ?thesis by blast
qed

lemma match_link_iff:
  "(match_link t = Some (label, post))
     = (\<exists>url. t = 91 # label @ 93 # 40 # url @ 41 # post
          \<and> label \<noteq> [] \<and> 93 \<notin> set label \<and> url \<noteq> [] \<and> 41 \<notin> set url)"
  using match_link_shape [of t label post] match_link_found [of label _ post]
  by blast

lemma collapse_ws_plain: "\<forall>c\<in>set u. \<not> is_space c \<Longrightarrow> collapse_ws u = u"
  by (induction u) auto

lemma collapse_ws_run:
  assumes "ws \<noteq> []" and "\<forall>c\<in>set ws. is_space c" and "post = [] \<or> \<not> is_space (hd post)"
  shows "collapse_ws (ws @ post) = 32 # collapse_ws post"
proof -
  from assms(1) obtain w ws' where ws: "ws = w # ws'" by (cases ws) auto
  with assms(2) have "dropWhile is_space (ws' @ post) = dropWhile is_space post"
    by (simp add: dropWhile_append2)
  moreover from assms(3) have "dropWhile is_space post = post"
    by (cases post) auto
  ultimately show ?thesis using ws assms(2) by simp
qed

lemma collapse_ws_append:
  "pre = [] \<or> \<not> is_space (last pre) \<Longrightarrow> collapse_ws (pre @ rest) = collapse_ws pre @ collapse_ws rest"
proof (induction pre rule: collapse_ws.induct)
  case 1
  then show ?case by simp
next
  case (2 x xs)
  show ?case
  proof (cases "is_space x")
    case False
    have "xs = [] \<or> \<not> is_space (last xs)"
      using "2.prems" by (cases xs) auto
    from "2.IH"(2) [OF False this] False show ?thesis by simp
  next
    case True
    with "2.prems" have ne: "xs \<noteq> []" and l: "\<not> is_space (last xs)"
      by (auto split: if_splits)
    then have ex: "\<exists>c\<in>set xs. \<not> is_space c"
      using last_in_set by blast
    then obtain c where "c \<in> set xs" and "\<not> is_space c" by auto
    then have d: "dropWhile is_space (xs @ rest) = dropWhile is_space xs @ rest"
      by (rule dropWhile_append1)
    from ex have dn: "dropWhile is_space xs \<noteq> []" by (simp add: dropWhile_eq_Nil_conv)
    have "xs = takeWhile is_space xs @ dropWhile is_space xs" by simp
    with dn have "last xs = last (dropWhile is_space xs)"
      by (metis last_appendR)
    with l dn have "dropWhile is_space xs = [] \<or> \<not> is_space (last (dropWhile is_space xs))" by simp
    from "2.IH"(1) [OF True this] True d show ?thesis by simp
  qed
qed

lemma collapse_ws_runs:
  assumes "pre = [] \<or> \<not> is_space (last pre)" and "ws \<noteq> []" and "\<forall>c\<in>set ws. is_space c"
    and "post = [] \<or> \<not> is_space (hd post)"
  shows "collapse_ws (pre @ ws @ post) = collapse_ws pre @ 32 # collapse_ws post"
  using collapse_ws_append [OF assms(1), of "ws @ post"] collapse_ws_run [OF assms(2,3,4)]
  by simp

lemma trim_core:
  assumes "\<forall>c\<in>set a. is_space c" and "\<forall>c\<in>set b. is_space c" and "trimmed core"
  shows "trim (a @ core @ b) = core"
proof (cases "core = []")
  case True
  from assms(1,2) have "\<forall>c\<in>set (a @ b). is_space c" by auto
  then have "dropWhile is_space (a @ b) = []" by simp
  with True show ?thesis by (simp add: trim_def trimEnd_def del: dropWhile_eq_Nil_conv)
next
  case False
  with assms(3) have h: "\<not> is_space (hd core)" and l: "\<not> is_space (last core)"
    by (simp_all add: trimmed_def)
  from False h have "dropWhile is_space (core @ b) = core @ b"
    by (cases core) auto
  with assms(1) have d: "dropWhile is_space (a @ core @ b) = core @ b"
    by (simp add: dropWhile_append2)
  from False l have "dropWhile is_space (rev core) = rev core"
    by (cases "rev core") (auto simp: last_rev [symmetric] hd_rev)
  moreover have "dropWhile is_space (rev b @ rev core) = dropWhile is_space (rev core)"
    using assms(2) by (intro dropWhile_append2) simp
  ultimately have "dropWhile is_space (rev (core @ b)) = rev core"
    by simp
  with d show ?thesis by (simp add: trim_def trimEnd_def)
qed

lemmas sanitize_eval =
  sanitizeForTts_def sanitize_greedy_def find_last_fence_close_def two_blocks_def fence_def js_def
  trim_def trimEnd_def is_space_def match_link_def

subsection \<open>The sanitiser\<close>

text \<open>
  C9, as far as the code goes. \<open>sanitizeForTts\<close> applies four replacements in order and
  trims. Each replacement is fixed by what it does to a text without a match, which
  it leaves as it is, and to the first match of a text, where it keeps the text
  before the match, puts the replacement, and goes on behind the match.
  A fenced block, three backquotes to the \<^emph>\<open>next\<close> three backquotes (the region is
  the shortest one, not a greedy one), becomes one space; the block is the first of
  the text when no fence starts in the text before it nor in its body, and a text
  that does not hold two fences one after the other is unchanged.
  An inline span, backquote to next backquote, becomes one space; a text that does
  not hold two backquotes is unchanged.
  A link becomes its label. A link starts a text exactly when the text is an opening
  bracket, a non-empty label without closing bracket, a closing bracket and an opening
  parenthesis, a non-empty address without closing parenthesis, and a closing
  parenthesis; the text before the first link, brackets that start no link included,
  is kept, and a text in which no link starts is unchanged.
  A whitespace run, bounded on both sides by the ends of the text or by code units
  that are not whitespace, becomes one space; a text without whitespace is unchanged;
  so the result of that step is single-spaced and holds the other code units of its
  argument in order. \<open>trim\<close> removes the whitespace at both ends, so the result of
  \<open>sanitizeForTts\<close> neither starts nor ends with whitespace.
  A text that is one fenced block, the closing fence being the first three backquotes
  after the opening one, sanitises to the empty text.
\<close>

theorem sanitize_steps:
  "sanitizeForTts t = trim (collapse_ws (rewrite_links (strip_inline (strip_fences t))))
   \<and> (\<not> has_fence (pre @ [96, 96]) \<and> \<not> has_fence (body @ [96, 96])
        \<longrightarrow> strip_fences (pre @ fence @ body @ fence @ post) = pre @ 32 # strip_fences post)
   \<and> (96 \<notin> set pre \<and> 96 \<notin> set body
        \<longrightarrow> strip_inline (pre @ 96 # body @ 96 # post) = pre @ 32 # strip_inline post)
   \<and> (91 \<notin> set pre \<and> label \<noteq> [] \<and> 93 \<notin> set label \<and> url \<noteq> [] \<and> 41 \<notin> set url
        \<longrightarrow> rewrite_links (pre @ 91 # label @ 93 # 40 # url @ 41 # post)
            = pre @ label @ rewrite_links post)
   \<and> single_spaced (collapse_ws u)
   \<and> filter (\<lambda>c. \<not> is_space c) (collapse_ws u) = filter (\<lambda>c. \<not> is_space c) u
   \<and> single_spaced (sanitizeForTts t) \<and> trimmed (sanitizeForTts t)
   \<and> (\<not> has_fence (body @ [96, 96]) \<longrightarrow> sanitizeForTts (fence @ body @ fence) = [])
   \<and> has_fence u = (\<exists>a c. u = a @ fence @ c)
   \<and> (\<not> (\<exists>a b c. u = a @ fence @ b @ fence @ c) \<longrightarrow> strip_fences u = u)
   \<and> (\<not> (\<exists>a b c. u = a @ 96 # b @ 96 # c) \<longrightarrow> strip_inline u = u)
   \<and> (match_link u = Some (label, post))
       = (\<exists>url. u = 91 # label @ 93 # 40 # url @ 41 # post
            \<and> label \<noteq> [] \<and> 93 \<notin> set label \<and> url \<noteq> [] \<and> 41 \<notin> set url)
   \<and> (no_link_in pre (91 # label @ 93 # 40 # url @ 41 # post)
        \<and> label \<noteq> [] \<and> 93 \<notin> set label \<and> url \<noteq> [] \<and> 41 \<notin> set url
        \<longrightarrow> rewrite_links (pre @ 91 # label @ 93 # 40 # url @ 41 # post)
            = pre @ label @ rewrite_links post)
   \<and> (no_link_in u [] \<longrightarrow> rewrite_links u = u)
   \<and> ((pre = [] \<or> \<not> is_space (last pre)) \<and> ws \<noteq> [] \<and> (\<forall>c\<in>set ws. is_space c)
        \<and> (post = [] \<or> \<not> is_space (hd post))
        \<longrightarrow> collapse_ws (pre @ ws @ post) = collapse_ws pre @ 32 # collapse_ws post)
   \<and> ((\<forall>c\<in>set u. \<not> is_space c) \<longrightarrow> collapse_ws u = u)
   \<and> ((\<forall>c\<in>set ws. is_space c) \<and> (\<forall>c\<in>set ws'. is_space c) \<and> trimmed u
        \<longrightarrow> trim (ws @ u @ ws') = u)"
proof (intro conjI impI)
  show "sanitizeForTts t = trim (collapse_ws (rewrite_links (strip_inline (strip_fences t))))"
    by (simp add: sanitizeForTts_def)
next
  assume "\<not> has_fence (pre @ [96, 96]) \<and> \<not> has_fence (body @ [96, 96])"
  then show "strip_fences (pre @ fence @ body @ fence @ post) = pre @ 32 # strip_fences post"
    by (simp add: strip_fences_plain strip_fences_block del: strip_fences.simps)
next
  assume "96 \<notin> set pre \<and> 96 \<notin> set body"
  then show "strip_inline (pre @ 96 # body @ 96 # post) = pre @ 32 # strip_inline post"
    by (simp add: strip_inline_plain strip_inline_span del: strip_inline.simps)
next
  assume "91 \<notin> set pre \<and> label \<noteq> [] \<and> 93 \<notin> set label \<and> url \<noteq> [] \<and> 41 \<notin> set url"
  then show "rewrite_links (pre @ 91 # label @ 93 # 40 # url @ 41 # post)
            = pre @ label @ rewrite_links post"
    by (simp add: rewrite_links_plain rewrite_links_link del: rewrite_links.simps)
next
  show "single_spaced (collapse_ws u)" by (rule collapse_ws_single_spaced)
next
  show "filter (\<lambda>c. \<not> is_space c) (collapse_ws u) = filter (\<lambda>c. \<not> is_space c) u"
    by (rule collapse_ws_keeps_text)
next
  show "single_spaced (sanitizeForTts t)"
    by (simp add: sanitizeForTts_def trim_single_spaced collapse_ws_single_spaced)
next
  show "trimmed (sanitizeForTts t)"
    by (simp add: sanitizeForTts_def trim_trimmed)
next
  assume b: "\<not> has_fence (body @ [96, 96])"
  have "strip_fences (fence @ body @ fence) = [32]"
    using strip_fences_block [OF b, of "[]"] by simp
  then show "sanitizeForTts (fence @ body @ fence) = []"
    by (simp add: sanitizeForTts_def match_link_def trim_def trimEnd_def is_space_def)
next
  show "has_fence u = (\<exists>a c. u = a @ fence @ c)" by (rule has_fence_iff)
next
  assume "\<not> (\<exists>a b c. u = a @ fence @ b @ fence @ c)"
  then show "strip_fences u = u" by (rule strip_fences_none)
next
  assume "\<not> (\<exists>a b c. u = a @ 96 # b @ 96 # c)"
  then show "strip_inline u = u" by (rule strip_inline_none)
next
  show "(match_link u = Some (label, post))
       = (\<exists>url. u = 91 # label @ 93 # 40 # url @ 41 # post
            \<and> label \<noteq> [] \<and> 93 \<notin> set label \<and> url \<noteq> [] \<and> 41 \<notin> set url)"
    by (rule match_link_iff)
next
  assume a: "no_link_in pre (91 # label @ 93 # 40 # url @ 41 # post)
        \<and> label \<noteq> [] \<and> 93 \<notin> set label \<and> url \<noteq> [] \<and> 41 \<notin> set url"
  then have "rewrite_links (91 # label @ 93 # 40 # url @ 41 # post) = label @ rewrite_links post"
    by (simp add: rewrite_links_link del: rewrite_links.simps)
  with a rewrite_links_skip [of pre "91 # label @ 93 # 40 # url @ 41 # post"]
  show "rewrite_links (pre @ 91 # label @ 93 # 40 # url @ 41 # post)
            = pre @ label @ rewrite_links post"
    by (simp del: rewrite_links.simps)
next
  assume "no_link_in u []"
  from rewrite_links_skip [OF this] show "rewrite_links u = u" by simp
next
  assume "(pre = [] \<or> \<not> is_space (last pre)) \<and> ws \<noteq> [] \<and> (\<forall>c\<in>set ws. is_space c)
        \<and> (post = [] \<or> \<not> is_space (hd post))"
  then show "collapse_ws (pre @ ws @ post) = collapse_ws pre @ 32 # collapse_ws post"
    using collapse_ws_runs [of pre ws post] by blast
next
  assume "\<forall>c\<in>set u. \<not> is_space c"
  then show "collapse_ws u = u" by (rule collapse_ws_plain)
next
  assume "(\<forall>c\<in>set ws. is_space c) \<and> (\<forall>c\<in>set ws'. is_space c) \<and> trimmed u"
  then show "trim (ws @ u @ ws') = u"
    using trim_core [of ws ws' u] by blast
qed

theorem sanitize_steps_witness:
  "strip_fences (js ''run '' @ fence @ js ''x = 1'' @ fence @ js '' now'')
     = js ''run '' @ 32 # js '' now''
   \<and> strip_inline (js ''call '' @ 96 # js ''f(x)'' @ 96 # js '' twice'')
     = js ''call '' @ 32 # js '' twice''
   \<and> rewrite_links (js ''see '' @ 91 # js ''the docs'' @ 93 # 40 # js ''http://a.b/c'' @ 41 # js ''.'')
     = js ''see the docs.''
   \<and> sanitizeForTts (fence @ js ''x = 1'' @ fence) = []
   \<and> single_spaced (sanitizeForTts two_blocks) \<and> trimmed (sanitizeForTts two_blocks)
   \<and> rewrite_links (js ''[1] '' @ 91 # js ''the docs'' @ 93 # 40 # js ''http://a.b/c'' @ 41 # js ''.'')
     = js ''[1] the docs.''
   \<and> collapse_ws (js ''a'' @ [32, 9, 10] @ js ''b'') = js ''a b''
   \<and> trim ([32, 10] @ js ''a b'' @ [9]) = js ''a b''
   \<and> strip_fences (fence @ js ''x'') = fence @ js ''x''
   \<and> sanitizeForTts mixed = js ''Run then see [1] the docs.''"
proof -
  have n: "\<not> has_fence (js ''run '' @ [96, 96]) \<and> \<not> has_fence (js ''x = 1'' @ [96, 96])"
    "96 \<notin> set (js ''call '') \<and> 96 \<notin> set (js ''f(x)'')"
    "91 \<notin> set (js ''see '') \<and> js ''the docs'' \<noteq> [] \<and> 93 \<notin> set (js ''the docs'')
      \<and> js ''http://a.b/c'' \<noteq> [] \<and> 41 \<notin> set (js ''http://a.b/c'')"
    by (simp_all add: js_def has_fence_def)
  have tail: "strip_fences (js '' now'') = js '' now''" "strip_inline (js '' twice'') = js '' twice''"
    "rewrite_links (js ''.'') = js ''.''" "js ''see '' @ js ''the docs'' @ js ''.'' = js ''see the docs.''"
    by (simp_all add: js_def fence_def match_link_def)
  have old: "strip_fences (js ''run '' @ fence @ js ''x = 1'' @ fence @ js '' now'')
     = js ''run '' @ 32 # js '' now''
   \<and> strip_inline (js ''call '' @ 96 # js ''f(x)'' @ 96 # js '' twice'')
     = js ''call '' @ 32 # js '' twice''
   \<and> rewrite_links (js ''see '' @ 91 # js ''the docs'' @ 93 # 40 # js ''http://a.b/c'' @ 41 # js ''.'')
     = js ''see the docs.''
   \<and> sanitizeForTts (fence @ js ''x = 1'' @ fence) = []
   \<and> single_spaced (sanitizeForTts two_blocks) \<and> trimmed (sanitizeForTts two_blocks)"
    using sanitize_steps [where t = two_blocks and pre = "js ''run ''" and body = "js ''x = 1''"
        and post = "js '' now''"]
      sanitize_steps [where t = two_blocks and pre = "js ''call ''" and body = "js ''f(x)''"
        and post = "js '' twice''"]
      sanitize_steps [where t = two_blocks and pre = "js ''see ''" and body = "js ''x = 1''"
        and post = "js ''.''" and label = "js ''the docs''" and url = "js ''http://a.b/c''"]
      n tail
    by simp
  have h: "no_link_in (js ''[1] '') (91 # js ''the docs'' @ 93 # 40 # js ''http://a.b/c'' @ 41 # js ''.'')"
    by (simp add: js_def match_link_def)
  have j: "js ''[1] '' @ js ''the docs'' @ js ''.'' = js ''[1] the docs.''"
    by (simp add: js_def)
  have links: "rewrite_links (js ''[1] '' @ 91 # js ''the docs'' @ 93 # 40 # js ''http://a.b/c'' @ 41 # js ''.'')
     = js ''[1] the docs.''"
    using sanitize_steps [where pre = "js ''[1] ''" and label = "js ''the docs''"
        and url = "js ''http://a.b/c''" and post = "js ''.''"] h n(3) tail(3) j
    by simp
  have sp: "(js ''a'' = [] \<or> \<not> is_space (last (js ''a''))) \<and> [32, 9, 10] \<noteq> ([] :: nat list)
        \<and> (\<forall>c\<in>set [32, 9, 10]. is_space c) \<and> (js ''b'' = [] \<or> \<not> is_space (hd (js ''b'')))"
    "collapse_ws (js ''a'') = js ''a''" "collapse_ws (js ''b'') = js ''b''"
    "js ''a'' @ 32 # js ''b'' = js ''a b''"
    by (simp_all add: js_def is_space_def)
  have ws: "collapse_ws (js ''a'' @ [32, 9, 10] @ js ''b'') = js ''a b''"
    using sanitize_steps [where pre = "js ''a''" and ws = "[32, 9, 10]" and post = "js ''b''"] sp
    by simp
  have tr: "(\<forall>c\<in>set [32, 10]. is_space c) \<and> (\<forall>c\<in>set [9]. is_space c) \<and> trimmed (js ''a b'')"
    by (simp add: js_def is_space_def trimmed_def)
  have trm: "trim ([32, 10] @ js ''a b'' @ [9]) = js ''a b''"
    using sanitize_steps [where ws = "[32, 10]" and ws' = "[9]" and u = "js ''a b''"] tr
    by simp
  have nf: "\<not> (\<exists>a b c. fence @ js ''x'' = a @ fence @ b @ fence @ c)"
  proof
    assume "\<exists>a b c. fence @ js ''x'' = a @ fence @ b @ fence @ c"
    then obtain a b c where "fence @ js ''x'' = a @ fence @ b @ fence @ c" by auto
    then have "length (fence @ js ''x'') = length (a @ fence @ b @ fence @ c)" by simp
    then show False by (simp add: fence_def js_def)
  qed
  have one: "strip_fences (fence @ js ''x'') = fence @ js ''x''"
    using sanitize_steps [where u = "fence @ js ''x''"] nf by simp
  have m: "sanitizeForTts mixed = js ''Run then see [1] the docs.''"
    by (simp add: mixed_def sanitize_eval)
  from old links ws trm one m show ?thesis by simp
qed

text \<open>
  The claim as written fails on the word greedy: in a text with two fenced blocks the
  source removes each block and keeps the text between them, where a greedy region
  would run from the first fence to the last and remove that text as well.
\<close>

theorem sanitize_lazy_counterexample:
  "sanitizeForTts two_blocks = js ''b'' \<and> sanitize_greedy two_blocks = []
   \<and> sanitizeForTts two_blocks \<noteq> sanitize_greedy two_blocks"
  by (simp add: sanitize_eval)

end
